theory Spec2Isabelle
  imports Main "HOL-Library.Sublist"
begin

section \<open>FillerBot (src/bots/filler.ts): data model\<close>

text \<open>
  A shallow embedding of the filler bot. Public keys are represented by the string that
  \<^verbatim>\<open>toString()\<close> gives, big numbers (\<^verbatim>\<open>BN\<close>) by natural numbers, sizes and array
  lengths by natural numbers, timestamps (\<^verbatim>\<open>Date.now()\<close>) by integers.
  Info-level logging and duration metrics are left out: they neither branch nor write
  any state that the bot reads. Expressions evaluated only for an info-level message are
  kept where they can throw.
\<close>

type_synonym pubkey = string
type_synonym txsig = string

text \<open>
  Errors that the code can see. \<^verbatim>\<open>E_ALREADY_LOCKED\<close> is the library constant of
  async-mutex, \<^verbatim>\<open>dlobMutexError\<close> the module constant of line 36. A
  \<^verbatim>\<open>SendTransactionError\<close> carries a message and its optional simulation logs
  (\<^verbatim>\<open>logs: string[] | undefined\<close>); every other error object has no \<^verbatim>\<open>logs\<close>
  property.
\<close>

datatype error =
    E_ALREADY_LOCKED
  | dlobMutexError
  | TypeError
  | SendTransactionError string "string list option"
  | OtherError string

record order =
  orderId :: nat

text \<open>
  A node of the order book. The objects are owned by the order book and shared with the
  bot, so the bot's state holds them in a store indexed by reference; a
  \<^verbatim>\<open>NodeToFill\<close> holds references.
\<close>

record dlobNode =
  userAccount :: "pubkey option"
  order :: order
  marketIndex :: nat
  haveFilled :: bool
  isVammNode :: bool

record nodeToFill =
  node :: nat
  makerNode :: "nat option"

record instruction =
  keys :: "pubkey list"
  programId :: pubkey
  data_byteLength :: nat

record chUser =
  userAccountPublicKey :: pubkey
  authority :: pubkey

type_synonym referrerInfo = "(pubkey \<times> pubkey) option"

record userStats =
  userStatsAccountPublicKey :: pubkey
  referrerInfo :: referrerInfo

record makerInfo =
  maker :: pubkey
  maker_order :: order
  makerStats :: pubkey

record nodeFillInfo =
  fi_makerInfo :: "makerInfo option"
  fi_chUser :: chUser
  fi_referrerInfo :: referrerInfo

text \<open>
  A transaction response by its \<^verbatim>\<open>meta.logMessages\<close>: absent (\<open>None\<close>) when
  \<^verbatim>\<open>meta\<close> or the list is \<^verbatim>\<open>null\<close>; a single message can be \<^verbatim>\<open>null\<close> too.
\<close>

record txResponse =
  logMessages :: "string option list option"

text \<open>
  The collaborators the bot calls (SDK client, user maps, transaction sender, order
  book, the helpers of \<^verbatim>\<open>../error\<close>), as functions that return a value or raise.
  \<open>getTransaction env txSig k\<close> is the answer to the \<open>k\<close>-th call for \<open>txSig\<close>;
  \<open>dlobRemoveCallsBack\<close> tells whether \<^verbatim>\<open>dlob.remove\<close> calls the callback it is given.
  The times that \<^verbatim>\<open>Date.now()\<close> returns and the outcomes of the waits for the
  order-book lock are arguments of the functions that depend on them.
\<close>

record env =
  walletPublicKey :: pubkey
  computeBudgetIx :: instruction
  userMap_mustGet :: "pubkey \<Rightarrow> error + chUser"
  userStatsMap_mustGet :: "pubkey \<Rightarrow> error + userStats"
  getFillOrderIx :: "pubkey \<Rightarrow> order \<Rightarrow> makerInfo option \<Rightarrow> referrerInfo \<Rightarrow> error + instruction"
  fillOrder :: "pubkey \<Rightarrow> order \<Rightarrow> makerInfo option \<Rightarrow> referrerInfo \<Rightarrow> error + txsig"
  txSender_send :: "instruction list \<Rightarrow> error + txsig"
  getTransaction :: "txsig \<Rightarrow> nat \<Rightarrow> error + txResponse option"
  isFillableByVAMM :: "order \<Rightarrow> nat \<Rightarrow> bool"
  dlobRemoveCallsBack :: "order \<Rightarrow> pubkey \<Rightarrow> bool"
  getErrorCode :: "error \<Rightarrow> int"
  getErrorMessage :: "error \<Rightarrow> string"

text \<open>
  Error-level log lines: one constructor for each \<^verbatim>\<open>logger.error\<close> call site, with
  the values the message interpolates.
\<close>

datatype logLine =
    NodeToFillIsNull
  | OrderNotFoundRemoving nat
  | ErrorFilling int pubkey nat nat
  | TxNotFound txsig
  | NullLogMessage txsig
  | LogWithIx string int
  | AssocOrder pubkey nat
  | FailedToSendPackedTx
  | SimulationLog string
  | TimeoutTryFill
  | DlobMutexErrorTimeout

text \<open>
  The state of one \<^verbatim>\<open>FillerBot\<close>: its fields, the node objects it shares with the
  order book, and what it has sent to its collaborators (removals asked of the order
  book, error-level log lines, submissions, counters of the metrics sink).
  \<^verbatim>\<open>metrics\<close> tells whether a metrics sink was given to the constructor;
  \<^verbatim>\<open>periodicTaskMutex\<close> whether that mutex is locked.
\<close>

record filler =
  name :: string
  dryRun :: bool
  metrics :: bool
  throttledNodes :: "string \<rightharpoonup> int"
  periodicTaskMutex :: bool
  dlobNodes :: "nat \<Rightarrow> dlobNode"
  dlobRemoved :: "(order \<times> pubkey) list"
  errorLog :: "logLine list"
  fillOrderCalls :: "(pubkey \<times> order) list"
  sentTxs :: "instruction list list"
  filledOrderRecords :: "nat option list"
  errorCodeRecords :: "int list"
  mutexBusyCount :: nat

section \<open>Strings and numbers\<close>

definition digit_char :: "nat \<Rightarrow> char" where
  "digit_char d = ''0123456789'' ! d"

text \<open>\<^verbatim>\<open>BN.toString()\<close>: the decimal digits.\<close>

fun toString_nat :: "nat \<Rightarrow> string" where
  "toString_nat n =
     (if n < 10 then [digit_char n] else toString_nat (n div 10) @ [digit_char (n mod 10)])"

declare toString_nat.simps [simp del]

text \<open>\<^verbatim>\<open>BN.toNumber()\<close> throws above 53 bits.\<close>

definition BN_toNumber :: "nat \<Rightarrow> error + nat" where
  "BN_toNumber n =
     (if n < 2 ^ 53 then Inr n
      else Inl (OtherError ''Number can only safely store up to 53 bits''))"

text \<open>\<^verbatim>\<open>log.includes(pat)\<close>: \<open>pat\<close> occurs in \<open>log\<close> as a contiguous substring.\<close>

fun string_includes :: "string \<Rightarrow> string \<Rightarrow> bool" where
  "string_includes [] pat = (pat = [])"
| "string_includes (c # cs) pat = (prefix pat (c # cs) \<or> string_includes cs pat)"

text \<open>A JavaScript \<^verbatim>\<open>Set\<close> of strings: insertion-ordered, without duplicates.\<close>

definition set_add :: "string list \<Rightarrow> string \<Rightarrow> string list" where
  "set_add s x = (if x \<in> set s then s else s @ [x])"

text \<open>\<^verbatim>\<open>xs[i]\<close> for a number \<open>i\<close>: \<^verbatim>\<open>undefined\<close> out of range.\<close>

definition array_get :: "'a list \<Rightarrow> int \<Rightarrow> 'a option" where
  "array_get xs i = (if 0 \<le> i \<and> i < int (length xs) then Some (xs ! nat i) else None)"

section \<open>Candidate signature and filter\<close>

text \<open>\<^verbatim>\<open>getNodeToFillSignature\<close>, lines 162-167.\<close>

definition getNodeToFillSignature :: "(nat \<Rightarrow> dlobNode) \<Rightarrow> nodeToFill \<Rightarrow> string" where
  "getNodeToFillSignature nodes ntf =
     (case userAccount (nodes (node ntf)) of
        None \<Rightarrow> ''~''
      | Some ua \<Rightarrow> ua @ ''-'' @ toString_nat (orderId (order (nodes (node ntf)))))"

definition FILL_ORDER_BACKOFF :: int where
  "FILL_ORDER_BACKOFF = 0"

text \<open>
  \<^verbatim>\<open>filterFillableNodes\<close>, lines 169-207, at the time \<open>now\<close> that \<^verbatim>\<open>Date.now()\<close>
  returns, with the backoff window as a parameter. The inner \<open>case\<close> is the throttle check
  of lines 178-187: \<open>None\<close> is its \<^verbatim>\<open>return false\<close>.
\<close>

definition filterFillableNodes_backoff ::
  "int \<Rightarrow> env \<Rightarrow> int \<Rightarrow> filler \<Rightarrow> nodeToFill \<Rightarrow> bool \<times> filler" where
  "filterFillableNodes_backoff backoff env now st ntf =
     (let n = dlobNodes st (node ntf);
          sig = getNodeToFillSignature (dlobNodes st) ntf
      in if isVammNode n then (False, st)
         else if haveFilled n then (False, st)
         else
           (case (case throttledNodes st sig of
                    None \<Rightarrow> Some st
                  | Some lastFillAttempt \<Rightarrow>
                      if lastFillAttempt + backoff > now then None
                      else Some (st\<lparr>throttledNodes := (throttledNodes st)(sig := None)\<rparr>)) of
              None \<Rightarrow> (False, st)
            | Some st' \<Rightarrow>
                if makerNode ntf = None \<and> \<not> isFillableByVAMM env (order n) (marketIndex n)
                then (False, st')
                else (True, st')))"

text \<open>The function of the source: the window is the constant of line 35.\<close>

definition filterFillableNodes :: "env \<Rightarrow> int \<Rightarrow> filler \<Rightarrow> nodeToFill \<Rightarrow> bool \<times> filler" where
  "filterFillableNodes = filterFillableNodes_backoff FILL_ORDER_BACKOFF"

section \<open>Fill information and the single-candidate path\<close>

text \<open>
  \<^verbatim>\<open>getNodeFillInfo\<close>, lines 209-242. \<^verbatim>\<open>userAccount.toString()\<close> on a node without
  an account reference raises a \<^verbatim>\<open>TypeError\<close>.
\<close>

definition getNodeFillInfo :: "env \<Rightarrow> (nat \<Rightarrow> dlobNode) \<Rightarrow> nodeToFill \<Rightarrow> error + nodeFillInfo" where
  "getNodeFillInfo env nodes ntf =
     (case (case makerNode ntf of
              None \<Rightarrow> Inr None
            | Some m \<Rightarrow>
                (case userAccount (nodes m) of
                   None \<Rightarrow> Inl TypeError
                 | Some mk \<Rightarrow>
                     (case userMap_mustGet env mk of
                        Inl e \<Rightarrow> Inl e
                      | Inr mu \<Rightarrow>
                          (case userStatsMap_mustGet env (authority mu) of
                             Inl e \<Rightarrow> Inl e
                           | Inr ms \<Rightarrow>
                               Inr (Some \<lparr>maker = mk, maker_order = order (nodes m),
                                          makerStats = userStatsAccountPublicKey ms\<rparr>))))) of
        Inl e \<Rightarrow> Inl e
      | Inr mi \<Rightarrow>
          (case userAccount (nodes (node ntf)) of
             None \<Rightarrow> Inl TypeError
           | Some ua \<Rightarrow>
               (case userMap_mustGet env ua of
                  Inl e \<Rightarrow> Inl e
                | Inr cu \<Rightarrow>
                    (case userStatsMap_mustGet env (authority cu) of
                       Inl e \<Rightarrow> Inl e
                     | Inr us \<Rightarrow>
                         Inr \<lparr>fi_makerInfo = mi, fi_chUser = cu,
                              fi_referrerInfo = referrerInfo us\<rparr>))))"

text \<open>
  The \<^verbatim>\<open>catch\<close> block of \<^verbatim>\<open>tryFillNode\<close>, lines 289-320, for the error \<open>err\<close> that
  \<^verbatim>\<open>fillOrder\<close> raised on the node \<open>n\<close> with account \<open>ua\<close>. \<open>busy\<close> tells whether
  the wait for the order-book lock runs into its timeout.
\<close>

definition tryFillNode_catch ::
  "env \<Rightarrow> int \<Rightarrow> bool \<Rightarrow> filler \<Rightarrow> nodeToFill \<Rightarrow> pubkey \<Rightarrow> error \<Rightarrow> (error + txsig option) \<times> filler" where
  "tryFillNode_catch env now busy st ntf ua err =
     (let n = dlobNodes st (node ntf);
          st1 = st\<lparr>dlobNodes := (dlobNodes st)(node ntf := n\<lparr>haveFilled := False\<rparr>)\<rparr>;
          st2 = st1\<lparr>throttledNodes :=
                  (throttledNodes st1)(getNodeToFillSignature (dlobNodes st1) ntf \<mapsto> now)\<rparr>;
          errorCode = getErrorCode env err;
          st3 = (if metrics st2
                 then st2\<lparr>errorCodeRecords := errorCodeRecords st2 @ [errorCode]\<rparr> else st2)
      in case (if getErrorMessage env err = ''OrderDoesNotExist''
               then (if busy then Inl dlobMutexError
                     else Inr (st3\<lparr>dlobRemoved := dlobRemoved st3 @ [(order n, ua)],
                                   errorLog := errorLog st3 @
                                     (if dlobRemoveCallsBack env (order n) ua
                                      then [OrderNotFoundRemoving (orderId (order n))] else [])\<rparr>))
               else Inr st3) of
           Inl e \<Rightarrow> (Inl e, st3)
         | Inr st4 \<Rightarrow>
             (case BN_toNumber (marketIndex n) of
                Inl e \<Rightarrow> (Inl e, st4)
              | Inr mkt \<Rightarrow>
                  (Inr None,
                   st4\<lparr>errorLog := errorLog st4 @
                          [ErrorFilling errorCode ua (orderId (order n)) mkt]\<rparr>)))"

text \<open>
  \<^verbatim>\<open>tryFillNode\<close>, lines 244-333. The result is the transaction signature, or
  \<^verbatim>\<open>undefined\<close> (\<open>None\<close>).
\<close>

definition tryFillNode ::
  "env \<Rightarrow> int \<Rightarrow> bool \<Rightarrow> filler \<Rightarrow> nodeToFill option \<Rightarrow> (error + txsig option) \<times> filler" where
  "tryFillNode env now busy st nodeToFill =
     (case nodeToFill of
        None \<Rightarrow> (Inr None, st\<lparr>errorLog := errorLog st @ [NodeToFillIsNull]\<rparr>)
      | Some ntf \<Rightarrow>
          (case userAccount (dlobNodes st (node ntf)) of
             None \<Rightarrow> (Inl TypeError, st)
           | Some ua \<Rightarrow>
               (case getNodeFillInfo env (dlobNodes st) ntf of
                  Inl e \<Rightarrow> (Inl e, st)
                | Inr info \<Rightarrow>
                    if dryRun st then (Inr None, st)
                    else
                      (let ord = order (dlobNodes st (node ntf));
                           st0 = st\<lparr>fillOrderCalls := fillOrderCalls st @ [(ua, ord)]\<rparr>
                       in case fillOrder env ua ord (fi_makerInfo info) (fi_referrerInfo info) of
                            Inr txSig \<Rightarrow>
                              (Inr (Some txSig),
                               if metrics st0
                               then st0\<lparr>filledOrderRecords := filledOrderRecords st0 @ [None]\<rparr>
                               else st0)
                          | Inl err \<Rightarrow> tryFillNode_catch env now busy st0 ntf ua err))))"

section \<open>Size estimation\<close>

definition new_Array :: "nat \<Rightarrow> unit list" where
  "new_Array n = replicate n ()"

text \<open>
  \<^verbatim>\<open>calcCompactU16EncodedSize(array, elemSize)\<close>, lines 353-361. The last branch is
  \<^verbatim>\<open>1 + (array.length * elemSize || 1)\<close>: a zero product is replaced by 1. Only the
  length of the array is read; \<^verbatim>\<open>new Array(n)\<close> is an array of that length.
\<close>

definition calcCompactU16EncodedSize :: "'a list \<Rightarrow> nat \<Rightarrow> nat" where
  "calcCompactU16EncodedSize array elemSize =
     (if length array > 0x3fff then 3 + length array * elemSize
      else if length array > 0x7f then 2 + length array * elemSize
      else 1 + (if length array * elemSize = 0 then 1 else length array * elemSize))"

text \<open>\<^verbatim>\<open>calcIxEncodedSize(ix)\<close>, lines 370-376.\<close>

definition calcIxEncodedSize :: "instruction \<Rightarrow> nat" where
  "calcIxEncodedSize ix =
     1 + calcCompactU16EncodedSize (new_Array (length (keys ix))) 1
       + calcCompactU16EncodedSize (new_Array (data_byteLength ix)) 1"

text \<open>
  The length prefix and the serialized size that the documentation of
  \<^verbatim>\<open>calcCompactU16EncodedSize\<close> describes (compact-u16: one byte up to 0x7f, two up to
  0x3fff, three above), stated from the specification to compare the code with.
\<close>

definition spec_prefixCost :: "nat \<Rightarrow> nat" where
  "spec_prefixCost n = (if n \<le> 127 then 1 else if n \<le> 16383 then 2 else 3)"

definition spec_encodedSize :: "nat \<Rightarrow> nat \<Rightarrow> nat" where
  "spec_encodedSize n e = spec_prefixCost n + n * e"

section \<open>The batch packer\<close>

definition maxTxSize :: nat where
  "maxTxSize = 1000"

text \<open>The local variables of \<^verbatim>\<open>tryBulkFillNodes\<close> that its packing loop updates.\<close>

record pack =
  tx :: "instruction list"
  runningTxSize :: nat
  uniqueAccounts :: "string list"
  nodesSent :: "nodeToFill list"
  idxUsed :: nat

text \<open>
  Lines 467-510: the transaction with the compute-budget instruction, the account set
  with the fee payer and that instruction's accounts, and the size of this envelope.
\<close>

definition initialPack :: "env \<Rightarrow> pack" where
  "initialPack env =
     (let uniq = set_add (foldl set_add (set_add [] (walletPublicKey env))
                            (keys (computeBudgetIx env)))
                   (programId (computeBudgetIx env))
      in \<lparr>tx = [computeBudgetIx env],
          runningTxSize =
            calcCompactU16EncodedSize (new_Array 1) 64 + 3
            + calcCompactU16EncodedSize (new_Array (length uniq)) 32
            + 32 + calcIxEncodedSize (computeBudgetIx env),
          uniqueAccounts = uniq,
          nodesSent = [],
          idxUsed = 0\<rparr>)"

text \<open>Lines 516-526: the instruction that fills a candidate.\<close>

definition fillIx :: "env \<Rightarrow> (nat \<Rightarrow> dlobNode) \<Rightarrow> nodeToFill \<Rightarrow> error + instruction" where
  "fillIx env nodes ntf =
     (case getNodeFillInfo env nodes ntf of
        Inl e \<Rightarrow> Inl e
      | Inr info \<Rightarrow>
          getFillOrderIx env (userAccountPublicKey (fi_chUser info)) (order (nodes (node ntf)))
            (fi_makerInfo info) (fi_referrerInfo info))"

text \<open>
  Lines 529-537: the accounts an instruction adds, and what they cost. The subtraction
  is exact: an estimate is never below 2 (lemma \<open>calcCompactU16EncodedSize_ge\<close>).
\<close>

definition newAccountsOf :: "string list \<Rightarrow> instruction \<Rightarrow> pubkey list" where
  "newAccountsOf uniq ix = filter (\<lambda>key. key \<notin> set uniq) (keys ix @ [programId ix])"

definition additionalAccountsCost :: "pubkey list \<Rightarrow> nat" where
  "additionalAccountsCost newAccounts =
     (if length newAccounts > 0 then calcCompactU16EncodedSize newAccounts 32 - 1 else 0)"

text \<open>
  One round of the loop of lines 515-555 once the instruction is known: \<open>None\<close> is the
  \<^verbatim>\<open>break\<close> of line 541, otherwise the variables after line 554.
\<close>

definition packIx :: "pack \<Rightarrow> nodeToFill \<Rightarrow> instruction \<Rightarrow> pack option" where
  "packIx ps ntf ix =
     (let newAccounts = newAccountsOf (uniqueAccounts ps) ix;
          newIxCost = calcIxEncodedSize ix;
          accountsCost = additionalAccountsCost newAccounts
      in if runningTxSize ps + newIxCost + accountsCost \<ge> maxTxSize then None
         else Some \<lparr>tx = tx ps @ [ix],
                    runningTxSize = runningTxSize ps + (newIxCost + accountsCost),
                    uniqueAccounts = foldl set_add (uniqueAccounts ps) newAccounts,
                    nodesSent = nodesSent ps @ [ntf],
                    idxUsed = idxUsed ps + 1\<rparr>)"

text \<open>The loop of lines 515-555. An error of a collaborator leaves the function.\<close>

fun packNodes :: "env \<Rightarrow> (nat \<Rightarrow> dlobNode) \<Rightarrow> pack \<Rightarrow> nodeToFill list \<Rightarrow> error + pack" where
  "packNodes env nodes ps [] = Inr ps"
| "packNodes env nodes ps (ntf # rest) =
     (case fillIx env nodes ntf of
        Inl e \<Rightarrow> Inl e
      | Inr ix \<Rightarrow>
          (case packIx ps ntf ix of
             None \<Rightarrow> Inr ps
           | Some ps' \<Rightarrow> packNodes env nodes ps' rest))"

text \<open>
  The cumulative estimated size of a sequence of fill instructions, in the words of the
  specification, to compare the loop with: starting from the size and the account set
  of the envelope, each instruction in turn adds its own encoded size and the marginal
  cost of the accounts that no earlier instruction (nor the envelope) referenced, and
  those accounts join the set.
\<close>

fun spec_cumulativeAccounts :: "string list \<Rightarrow> instruction list \<Rightarrow> string list" where
  "spec_cumulativeAccounts uniq [] = uniq"
| "spec_cumulativeAccounts uniq (ix # ixs) =
     spec_cumulativeAccounts (foldl set_add uniq (newAccountsOf uniq ix)) ixs"

fun spec_cumulativeSize :: "nat \<Rightarrow> string list \<Rightarrow> instruction list \<Rightarrow> nat" where
  "spec_cumulativeSize sz uniq [] = sz"
| "spec_cumulativeSize sz uniq (ix # ixs) =
     spec_cumulativeSize
       (sz + calcIxEncodedSize ix + additionalAccountsCost (newAccountsOf uniq ix))
       (foldl set_add uniq (newAccountsOf uniq ix)) ixs"

section \<open>Reconciliation\<close>

text \<open>
  The loop of lines 392-399: up to ten calls of \<^verbatim>\<open>getTransaction\<close>, the \<open>attempts\<close>-th
  call answering \<open>getTransaction env txSig attempts\<close>.
\<close>

function fetchTx :: "env \<Rightarrow> txsig \<Rightarrow> nat \<Rightarrow> error + txResponse option" where
  "fetchTx env txSig attempts =
     (if attempts < 10
      then (case getTransaction env txSig attempts of
              Inl e \<Rightarrow> Inl e
            | Inr None \<Rightarrow> fetchTx env txSig (attempts + 1)
            | Inr (Some r) \<Rightarrow> Inr (Some r))
      else Inr None)"
  by pat_completeness auto
termination
  by (relation "measure (\<lambda>(env, txSig, attempts). 10 - attempts)") auto

declare fetchTx.simps [simp del]

definition isLogFillOrder :: "string \<Rightarrow> bool" where
  "isLogFillOrder log = (log = ''Program log: Instruction: FillOrder'')"

text \<open>The local variables of the loop of lines 406-455.\<close>

record logState =
  nextIsFillRecord :: bool
  ixIdx :: int
  successCount :: nat

text \<open>
  Lines 417-421 and 434-438: the candidate at \<^verbatim>\<open>ixIdx\<close> and the two log lines about
  it. The first line is written before the second dereferences the candidate.
\<close>

definition assocOrder ::
  "filler \<Rightarrow> nodeToFill list \<Rightarrow> logState \<Rightarrow> string \<Rightarrow> (error + nodeToFill \<times> pubkey) \<times> filler" where
  "assocOrder st nodesFilled ls log =
     (let st1 = st\<lparr>errorLog := errorLog st @ [LogWithIx log (ixIdx ls)]\<rparr>
      in case array_get nodesFilled (ixIdx ls) of
           None \<Rightarrow> (Inl TypeError, st1)
         | Some filledNode \<Rightarrow>
             (case userAccount (dlobNodes st1 (node filledNode)) of
                None \<Rightarrow> (Inl TypeError, st1)
              | Some ua \<Rightarrow>
                  (case BN_toNumber (orderId (order (dlobNodes st1 (node filledNode)))) of
                     Inl e \<Rightarrow> (Inl e, st1)
                   | Inr oid \<Rightarrow>
                       (Inr (filledNode, ua),
                        st1\<lparr>errorLog := errorLog st1 @ [AssocOrder ua oid]\<rparr>))))"

text \<open>
  One round of the loop of lines 409-455 on the log line \<open>log\<close>, at the time \<open>now\<close>;
  \<open>busy\<close> tells whether a wait for the order-book lock in this round runs into its
  timeout.
\<close>

definition processLog ::
  "env \<Rightarrow> int \<Rightarrow> bool \<Rightarrow> nodeToFill list \<Rightarrow> txsig \<Rightarrow> logState \<Rightarrow> filler \<Rightarrow> string option
     \<Rightarrow> (error + logState) \<times> filler" where
  "processLog env now busy nodesFilled txSig ls st log =
     (case log of
        None \<Rightarrow> (Inr ls, st\<lparr>errorLog := errorLog st @ [NullLogMessage txSig]\<rparr>)
      | Some l \<Rightarrow>
          if nextIsFillRecord ls then
            (if string_includes l ''Order does not exist'' then
               (case assocOrder st nodesFilled ls l of
                  (Inl e, st1) \<Rightarrow> (Inl e, st1)
                | (Inr (filledNode, ua), st1) \<Rightarrow>
                    if busy then (Inl dlobMutexError, st1)
                    else
                      (let ord = order (dlobNodes st1 (node filledNode))
                       in (Inr (ls\<lparr>nextIsFillRecord := False\<rparr>),
                           st1\<lparr>dlobRemoved := dlobRemoved st1 @ [(ord, ua)],
                               errorLog := errorLog st1 @
                                 (if dlobRemoveCallsBack env ord ua
                                  then [OrderNotFoundRemoving (orderId ord)] else [])\<rparr>)))
             else if string_includes l ''Amm cant fulfill order'' then
               (case assocOrder st nodesFilled ls l of
                  (Inl e, st1) \<Rightarrow> (Inl e, st1)
                | (Inr (filledNode, ua), st1) \<Rightarrow>
                    (Inr (ls\<lparr>nextIsFillRecord := False\<rparr>),
                     st1\<lparr>throttledNodes :=
                           (throttledNodes st1)
                             (getNodeToFillSignature (dlobNodes st1) filledNode \<mapsto> now)\<rparr>))
             else if length l > 50 then
               (Inr (ls\<lparr>successCount := successCount ls + 1, nextIsFillRecord := False\<rparr>), st)
             else (Inr (ls\<lparr>nextIsFillRecord := False\<rparr>), st))
          else if isLogFillOrder l then
            (Inr (ls\<lparr>nextIsFillRecord := True, ixIdx := ixIdx ls + 1\<rparr>), st)
          else (Inr ls, st))"

text \<open>
  The loop of lines 409-455 from the \<open>i\<close>-th log line on; \<open>clock i\<close> and \<open>busy i\<close> are
  the time and the state of the order-book lock in the round of the \<open>i\<close>-th line.
\<close>

fun processLogs ::
  "env \<Rightarrow> (nat \<Rightarrow> int) \<Rightarrow> (nat \<Rightarrow> bool) \<Rightarrow> nodeToFill list \<Rightarrow> txsig \<Rightarrow> nat \<Rightarrow> logState \<Rightarrow> filler
     \<Rightarrow> string option list \<Rightarrow> (error + logState) \<times> filler" where
  "processLogs env clock busy nodesFilled txSig i ls st [] = (Inr ls, st)"
| "processLogs env clock busy nodesFilled txSig i ls st (log # logs) =
     (case processLog env (clock i) (busy i) nodesFilled txSig ls st log of
        (Inl e, st') \<Rightarrow> (Inl e, st')
      | (Inr ls', st') \<Rightarrow> processLogs env clock busy nodesFilled txSig (i + 1) ls' st' logs)"

text \<open>\<^verbatim>\<open>processBulkFillTxLogs\<close>, lines 386-462.\<close>

definition processBulkFillTxLogs ::
  "env \<Rightarrow> (nat \<Rightarrow> int) \<Rightarrow> (nat \<Rightarrow> bool) \<Rightarrow> filler \<Rightarrow> nodeToFill list \<Rightarrow> txsig
     \<Rightarrow> (error + unit) \<times> filler" where
  "processBulkFillTxLogs env clock busy st nodesFilled txSig =
     (case fetchTx env txSig 0 of
        Inl e \<Rightarrow> (Inl e, st)
      | Inr None \<Rightarrow> (Inr (), st\<lparr>errorLog := errorLog st @ [TxNotFound txSig]\<rparr>)
      | Inr (Some r) \<Rightarrow>
          (case logMessages r of
             None \<Rightarrow> (Inl TypeError, st)
           | Some logs \<Rightarrow>
               (case processLogs env clock busy nodesFilled txSig 0
                       \<lparr>nextIsFillRecord = False, ixIdx = - 1, successCount = 0\<rparr> st logs of
                  (Inl e, st') \<Rightarrow> (Inl e, st')
                | (Inr ls, st') \<Rightarrow>
                    (Inr (),
                     if metrics st'
                     then st'\<lparr>filledOrderRecords :=
                               filledOrderRecords st' @ [Some (successCount ls)]\<rparr>
                     else st'))))"

section \<open>Submission\<close>

definition error_logs :: "error \<Rightarrow> string list option" where
  "error_logs e = (case e of SendTransactionError m logs \<Rightarrow> logs | _ \<Rightarrow> None)"

text \<open>
  The \<^verbatim>\<open>catch\<close> block of \<^verbatim>\<open>tryBulkFillNodes\<close>, lines 607-614. Iterating
  \<^verbatim>\<open>simError.logs\<close> raises a \<^verbatim>\<open>TypeError\<close> when the error has no logs.
\<close>

definition tryBulkFillNodes_catch :: "filler \<Rightarrow> error \<Rightarrow> (error + txsig option) \<times> filler" where
  "tryBulkFillNodes_catch st e =
     (let st1 = st\<lparr>errorLog := errorLog st @ [FailedToSendPackedTx]\<rparr>
      in case error_logs e of
           None \<Rightarrow> (Inl TypeError, st1)
         | Some logs \<Rightarrow> (Inr None, st1\<lparr>errorLog := errorLog st1 @ map SimulationLog logs\<rparr>))"

text \<open>
  \<^verbatim>\<open>tryBulkFillNodes\<close>, lines 464-615. The result is the empty string when nothing was
  packed, the transaction signature after a submission, \<^verbatim>\<open>undefined\<close> (\<open>None\<close>) after
  the \<^verbatim>\<open>catch\<close> block. \<open>sentTxs\<close> records every call of \<^verbatim>\<open>txSender.send\<close>.
\<close>

definition tryBulkFillNodes ::
  "env \<Rightarrow> (nat \<Rightarrow> int) \<Rightarrow> (nat \<Rightarrow> bool) \<Rightarrow> filler \<Rightarrow> nodeToFill list
     \<Rightarrow> (error + txsig option) \<times> filler" where
  "tryBulkFillNodes env clock busy st nodesToFill =
     (case packNodes env (dlobNodes st) (initialPack env) nodesToFill of
        Inl e \<Rightarrow> (Inl e, st)
      | Inr ps \<Rightarrow>
          if length (nodesSent ps) = 0 then (Inr (Some []), st)
          else
            (let st0 = st\<lparr>sentTxs := sentTxs st @ [tx ps]\<rparr>
             in case txSender_send env (tx ps) of
                  Inl e \<Rightarrow> tryBulkFillNodes_catch st0 e
                | Inr txSig \<Rightarrow>
                    (case processBulkFillTxLogs env clock busy st0 (nodesSent ps) txSig of
                       (Inl e, st1) \<Rightarrow> tryBulkFillNodes_catch st1 e
                     | (Inr u, st1) \<Rightarrow>
                         (Inr (Some txSig),
                          if metrics st1
                          then st1\<lparr>filledOrderRecords :=
                                    filledOrderRecords st1 @ [Some (length (nodesSent ps))]\<rparr>
                          else st1))))"

section \<open>The cycle entry point\<close>








section \<open>States of the throttle registry\<close>

text \<open>
  The states a bot can be in: the constructor leaves the registry empty (line 60); the
  order book may replace the nodes it shares with the bot; every function above that
  writes the registry (lines 185, 291 and 439) may run, on any arguments, at any time and
  with any answers of the collaborators.
\<close>

inductive reachable :: "filler \<Rightarrow> bool" where
  created: "throttledNodes st = Map.empty \<Longrightarrow> reachable st"
| orderBook: "reachable st \<Longrightarrow> reachable (st\<lparr>dlobNodes := nodes\<rparr>)"
| filtered: "reachable st \<Longrightarrow> reachable (snd (filterFillableNodes_backoff backoff env now st ntf))"
| fallback: "reachable st \<Longrightarrow> reachable (snd (tryFillNode env now busy st nodeToFill))"
| reconciled:
    "reachable st \<Longrightarrow> reachable (snd (processBulkFillTxLogs env clock busys st nodesFilled txSig))"
| submitted: "reachable st \<Longrightarrow> reachable (snd (tryBulkFillNodes env clock busys st nodesToFill))"

section \<open>Example inputs\<close>

text \<open>
  A bot without throttle entries, three taker nodes in the shared store, and
  collaborators that resolve every account. The fill instruction of the example names
  four accounts and carries as many data bytes as the order id, so that the second
  candidate (order id 900) does not fit the budget while the first and the third do.
\<close>

definition ex_nodes :: "nat \<Rightarrow> dlobNode" where
  "ex_nodes r =
     \<lparr>userAccount = Some (''user'' @ toString_nat r),
      order = \<lparr>orderId = (if r = 1 then 900 else 10 + r)\<rparr>,
      marketIndex = 0, haveFilled = False, isVammNode = False\<rparr>"

definition ex_cand :: "nat \<Rightarrow> nodeToFill" where
  "ex_cand r = \<lparr>node = r, makerNode = None\<rparr>"

definition ex_env :: env where
  "ex_env =
     \<lparr>walletPublicKey = ''wallet'',
      computeBudgetIx =
        \<lparr>keys = [], programId = ''ComputeBudget111111111111111111111111111111'',
         data_byteLength = 9\<rparr>,
      userMap_mustGet = (\<lambda>k. Inr \<lparr>userAccountPublicKey = k, authority = ''auth-'' @ k\<rparr>),
      userStatsMap_mustGet =
        (\<lambda>a. Inr \<lparr>userStatsAccountPublicKey = ''stats-'' @ a, referrerInfo = None\<rparr>),
      getFillOrderIx =
        (\<lambda>pk ord mi ri.
           Inr \<lparr>keys = [''state'', pk, ''fillerStats'', ''userStats''], programId = ''drift'',
                data_byteLength = orderId ord\<rparr>),
      fillOrder = (\<lambda>pk ord mi ri. Inl (SendTransactionError ''failed'' None)),
      txSender_send = (\<lambda>ixs. Inr ''sig''),
      getTransaction = (\<lambda>sig attempt. Inr None),
      isFillableByVAMM = (\<lambda>ord mkt. True),
      dlobRemoveCallsBack = (\<lambda>ord pk. True),
      getErrorCode = (\<lambda>e. 6000),
      getErrorMessage = (\<lambda>e. ''OrderDoesNotExist'')\<rparr>"

definition ex_filler :: filler where
  "ex_filler =
     \<lparr>name = ''filler'', dryRun = False, metrics = True, throttledNodes = Map.empty,
      periodicTaskMutex = False, dlobNodes = ex_nodes, dlobRemoved = [], errorLog = [],
      fillOrderCalls = [], sentTxs = [], filledOrderRecords = [], errorCodeRecords = [],
      mutexBusyCount = 0\<rparr>"

text \<open>The fill instruction of the candidate at reference \<open>r\<close>.\<close>

definition ex_ix :: "nat \<Rightarrow> instruction" where
  "ex_ix r =
     \<lparr>keys = [''state'', ''user'' @ toString_nat r, ''fillerStats'', ''userStats''],
      programId = ''drift'', data_byteLength = (if r = 1 then 900 else 10 + r)\<rparr>"

text \<open>The same bot with a node without an account reference at reference 3.\<close>

definition ex_sentinel_filler :: filler where
  "ex_sentinel_filler = ex_filler\<lparr>dlobNodes := ex_nodes(3 := (ex_nodes 3)\<lparr>userAccount := None\<rparr>)\<rparr>"

text \<open>The same bot with every node marked filled by the order book.\<close>

definition ex_filled_filler :: filler where
  "ex_filled_filler = ex_filler\<lparr>dlobNodes := (\<lambda>r. (ex_nodes r)\<lparr>haveFilled := True\<rparr>)\<rparr>"

text \<open>Collaborators whose transaction sender fails, with simulation logs.\<close>

definition ex_failing_env :: env where
  "ex_failing_env =
     ex_env\<lparr>txSender_send :=
       (\<lambda>ixs. Inl (SendTransactionError ''failed to send transaction''
                     (Some [''Program log: Order does not exist''])))\<rparr>"

text \<open>
  Collaborators whose first \<^verbatim>\<open>getTransaction\<close> answers with the result log of three
  fills: a missing order, a rejection, and 60 characters of event data.
\<close>

definition ex_logs :: "string option list" where
  "ex_logs =
     [Some ''Program log: Instruction: FillOrder'',
      Some ''Program log: Order does not exist'',
      Some ''Program log: Instruction: FillOrder'',
      Some ''Program log: Amm cant fulfill order'',
      Some ''Program log: Instruction: FillOrder'',
      Some ''Program data: 0123456789abcdefghijklmnopqrstuvwxyzABCDEFGHIJ'']"

definition ex_logs_env :: env where
  "ex_logs_env = ex_env\<lparr>getTransaction := (\<lambda>sig attempt. Inr (Some \<lparr>logMessages = Some ex_logs\<rparr>))\<rparr>"








section \<open>Theorems\<close>

subsection \<open>Size estimation\<close>

lemma calcCompactU16EncodedSize_nonzero:
  "length xs * e \<noteq> 0 \<Longrightarrow> calcCompactU16EncodedSize xs e = spec_encodedSize (length xs) e"
  by (simp add: calcCompactU16EncodedSize_def spec_encodedSize_def spec_prefixCost_def)

lemma calcCompactU16EncodedSize_zero:
  "length xs \<le> 127 \<Longrightarrow> length xs * e = 0 \<Longrightarrow> calcCompactU16EncodedSize xs e = 2"
  by (simp add: calcCompactU16EncodedSize_def)

lemma calcCompactU16EncodedSize_ge: "2 \<le> calcCompactU16EncodedSize xs e"
  by (cases "length xs * e") (simp_all add: calcCompactU16EncodedSize_def)

lemma calcCompactU16EncodedSize_spec:
  "calcCompactU16EncodedSize xs e =
     spec_encodedSize (length xs) e + (if length xs \<le> 127 \<and> length xs * e = 0 then 1 else 0)"
  by (simp add: calcCompactU16EncodedSize_def spec_encodedSize_def spec_prefixCost_def)

text \<open>
  Claim C2. The claim: for every length \<open>n\<close> and element size \<open>e\<close> the estimator returns
  the compact-u16 prefix cost plus \<open>n * e\<close>, so that an empty array costs one byte. The
  code agrees with that whenever \<open>n * e\<close> is not zero (lemma
  \<open>calcCompactU16EncodedSize_nonzero\<close>). For the empty array, which the packer passes for
  the account list of the compute-budget instruction, the code returns 2, one more than
  the single prefix byte \<^verbatim>\<open>[0x00]\<close> of its own documentation.
\<close>

theorem calcCompactU16EncodedSize_empty_array:
  "calcCompactU16EncodedSize (new_Array 0) 1 = 2 \<and> spec_encodedSize 0 1 = 1"
  by (simp add: calcCompactU16EncodedSize_def new_Array_def spec_encodedSize_def
      spec_prefixCost_def)

subsection \<open>The batch packer\<close>

lemma packIx_Some:
  "packIx ps ntf ix = Some ps' \<Longrightarrow>
     runningTxSize ps' < maxTxSize \<and> nodesSent ps' = nodesSent ps @ [ntf]
     \<and> idxUsed ps' = idxUsed ps + 1 \<and> tx ps' = tx ps @ [ix]
     \<and> runningTxSize ps + calcIxEncodedSize ix
          + additionalAccountsCost (newAccountsOf (uniqueAccounts ps) ix) < maxTxSize"
  by (auto simp: packIx_def Let_def split: if_splits)

lemma packIx_None:
  "packIx ps ntf ix = None \<longleftrightarrow>
     runningTxSize ps + calcIxEncodedSize ix
       + additionalAccountsCost (newAccountsOf (uniqueAccounts ps) ix) \<ge> maxTxSize"
  by (auto simp: packIx_def Let_def split: if_splits)

lemma packNodes_grows:
  "packNodes env nodes ps0 cands = Inr ps \<Longrightarrow>
     \<exists>k \<le> length cands. nodesSent ps = nodesSent ps0 @ take k cands
        \<and> idxUsed ps = idxUsed ps0 + k
        \<and> packNodes env nodes ps0 (take k cands) = Inr ps
        \<and> (k < length cands \<longrightarrow> (\<exists>ix. fillIx env nodes (cands ! k) = Inr ix \<and> packIx ps (cands ! k) ix = None))"
proof (induction cands arbitrary: ps0)
  case Nil
  then show ?case by simp
next
  case (Cons c cands)
  from Cons.prems obtain ix where ix: "fillIx env nodes c = Inr ix"
    by (auto split: sum.splits)
  show ?case
  proof (cases "packIx ps0 c ix")
    case None
    with Cons.prems ix have "ps = ps0" by simp
    with None ix show ?thesis by (intro exI[of _ 0]) simp
  next
    case (Some ps1)
    with Cons.prems ix have run: "packNodes env nodes ps1 cands = Inr ps" by simp
    from Cons.IH[OF run] obtain k where k: "k \<le> length cands"
      "nodesSent ps = nodesSent ps1 @ take k cands" "idxUsed ps = idxUsed ps1 + k"
      "packNodes env nodes ps1 (take k cands) = Inr ps"
      "k < length cands \<longrightarrow> (\<exists>ix. fillIx env nodes (cands ! k) = Inr ix \<and> packIx ps (cands ! k) ix = None)"
      by blast
    from packIx_Some[OF Some] have s1: "nodesSent ps1 = nodesSent ps0 @ [c]" "idxUsed ps1 = idxUsed ps0 + 1"
      by simp_all
    show ?thesis
      using k s1 ix Some by (intro exI[of _ "Suc k"]) simp
  qed
qed


lemma packNodes_prefix:
  "packNodes env nodes ps0 cands = Inr ps \<Longrightarrow> nodesSent ps = nodesSent ps0 @ take k cands \<Longrightarrow>
   k \<le> length cands \<Longrightarrow> j < k \<Longrightarrow>
     \<exists>pj ix pj'. packNodes env nodes ps0 (take j cands) = Inr pj
        \<and> nodesSent pj = nodesSent ps0 @ take j cands
        \<and> fillIx env nodes (cands ! j) = Inr ix
        \<and> packIx pj (cands ! j) ix = Some pj'
        \<and> packNodes env nodes ps0 (take (Suc j) cands) = Inr pj'"
proof (induction cands arbitrary: ps0 k j)
  case Nil
  then show ?case by simp
next
  case (Cons c cands)
  from Cons.prems(1) obtain ix where ix: "fillIx env nodes c = Inr ix"
    by (auto split: sum.splits)
  from Cons.prems(4) obtain k' where k': "k = Suc k'" by (cases k) auto
  show ?case
  proof (cases "packIx ps0 c ix")
    case None
    with Cons.prems(1) ix have "ps = ps0" by simp
    with Cons.prems(2) k' show ?thesis by simp
  next
    case (Some ps1)
    with Cons.prems(1) ix have run: "packNodes env nodes ps1 cands = Inr ps" by simp
    from packIx_Some[OF Some] have s1: "nodesSent ps1 = nodesSent ps0 @ [c]" by simp
    show ?thesis
    proof (cases j)
      case 0
      with ix Some show ?thesis by simp
    next
      case (Suc j')
      have "nodesSent ps = nodesSent ps1 @ take k' cands"
        using Cons.prems(2) k' s1 by simp
      moreover have "k' \<le> length cands" "j' < k'"
        using Cons.prems(3,4) k' Suc by simp_all
      ultimately obtain pj ix' pj' where
        "packNodes env nodes ps1 (take j' cands) = Inr pj"
        "nodesSent pj = nodesSent ps1 @ take j' cands"
        "fillIx env nodes (cands ! j') = Inr ix'"
        "packIx pj (cands ! j') ix' = Some pj'"
        "packNodes env nodes ps1 (take (Suc j') cands) = Inr pj'"
        using Cons.IH[OF run] by blast
      then show ?thesis
        using Suc ix Some s1 by simp
    qed
  qed
qed

lemma packNodes_total:
  "\<forall>c. c \<in> set cands \<longrightarrow> (\<exists>ix. fillIx env nodes c = Inr ix) \<Longrightarrow>
     \<exists>ps. packNodes env nodes ps0 cands = Inr ps"
proof (induction cands arbitrary: ps0)
  case Nil
  then show ?case by simp
next
  case (Cons c cands)
  then obtain ix where ix: "fillIx env nodes c = Inr ix" by auto
  show ?case
  proof (cases "packIx ps0 c ix")
    case None
    with ix show ?thesis by simp
  next
    case (Some ps1)
    from Cons have "\<exists>ps. packNodes env nodes ps1 cands = Inr ps" by simp
    with ix Some show ?thesis by simp
  qed
qed

lemma initialPack_empty: "nodesSent (initialPack env) = [] \<and> idxUsed (initialPack env) = 0"
  by (simp add: initialPack_def Let_def)

text \<open>
  Claim C1. Whatever the candidates, when the packing loop of \<^verbatim>\<open>tryBulkFillNodes\<close>
  returns with a batch that is not empty, the running size is strictly below
  \<open>maxTxSize\<close>, hence within the budget; and so it is after every accepted candidate:
  the variables after the \<open>j\<close>-th acceptance are those the loop returns on the first
  \<open>j\<close> candidates.
\<close>

theorem packNodes_within_budget:
  assumes "packNodes env nodes (initialPack env) cands = Inr ps"
  shows "(nodesSent ps \<noteq> [] \<longrightarrow> runningTxSize ps < maxTxSize) \<and>
         (\<forall>j. 0 < j \<and> j \<le> length (nodesSent ps) \<longrightarrow>
            (\<exists>pj. packNodes env nodes (initialPack env) (take j cands) = Inr pj
               \<and> nodesSent pj = take j cands \<and> runningTxSize pj < maxTxSize))"
proof -
  from packNodes_grows[OF assms] obtain k where k: "k \<le> length cands"
    "nodesSent ps = take k cands" "packNodes env nodes (initialPack env) (take k cands) = Inr ps"
    by (auto simp: initialPack_empty)
  have len: "length (nodesSent ps) = k" using k by simp
  have steps: "\<exists>pj. packNodes env nodes (initialPack env) (take j cands) = Inr pj
               \<and> nodesSent pj = take j cands \<and> runningTxSize pj < maxTxSize"
    if j: "0 < j" "j \<le> k" for j
  proof -
    from j obtain i where i: "j = Suc i" "i < k" by (cases j) auto
    from packNodes_prefix[OF assms _ k(1) i(2)] k(2) obtain pi ix pj where
      "packIx pi (cands ! i) ix = Some pj" "nodesSent pi = take i cands"
      "packNodes env nodes (initialPack env) (take (Suc i) cands) = Inr pj"
      by (auto simp: initialPack_empty)
    moreover from this packIx_Some[of pi "cands ! i" ix pj]
    have "runningTxSize pj < maxTxSize" "nodesSent pj = take (Suc i) cands"
      using i k(1) by (simp_all add: take_Suc_conv_app_nth)
    ultimately show ?thesis using i by blast
  qed
  have "runningTxSize ps < maxTxSize" if "nodesSent ps \<noteq> []"
  proof -
    from that len have "0 < k" by auto
    from steps[OF this] k(3) show ?thesis by auto
  qed
  with steps len show ?thesis by blast
qed

lemma spec_cumulativeSize_ge: "sz \<le> spec_cumulativeSize sz uniq ixs"
proof (induction ixs arbitrary: sz uniq)
  case Nil
  then show ?case by simp
next
  case (Cons ix ixs)
  have "sz \<le> sz + calcIxEncodedSize ix + additionalAccountsCost (newAccountsOf uniq ix)"
    by simp
  also have "\<dots> \<le> spec_cumulativeSize (sz + calcIxEncodedSize ix
      + additionalAccountsCost (newAccountsOf uniq ix))
      (foldl set_add uniq (newAccountsOf uniq ix)) ixs"
    by (rule Cons.IH)
  finally show ?case by simp
qed

lemma spec_cumulativeSize_mono:
  "j \<le> j' \<Longrightarrow>
     spec_cumulativeSize sz uniq (take j ixs) \<le> spec_cumulativeSize sz uniq (take j' ixs)"
proof (induction ixs arbitrary: sz uniq j j')
  case Nil
  then show ?case by simp
next
  case (Cons ix ixs)
  show ?case
  proof (cases j)
    case 0
    then show ?thesis by (simp add: spec_cumulativeSize_ge)
  next
    case (Suc i)
    with Cons.prems obtain i' where "j' = Suc i'" "i \<le> i'" by (cases j') auto
    with Suc Cons.IH[of i i'] show ?thesis by simp
  qed
qed

lemma packNodes_spec:
  "map (fillIx env nodes) cands = map Inr ixs \<Longrightarrow>
     \<exists>k \<le> length cands.
        packNodes env nodes ps0 cands =
          Inr \<lparr>tx = tx ps0 @ take k ixs,
               runningTxSize =
                 spec_cumulativeSize (runningTxSize ps0) (uniqueAccounts ps0) (take k ixs),
               uniqueAccounts = spec_cumulativeAccounts (uniqueAccounts ps0) (take k ixs),
               nodesSent = nodesSent ps0 @ take k cands,
               idxUsed = idxUsed ps0 + k\<rparr>
        \<and> (\<forall>j. 0 < j \<and> j \<le> k \<longrightarrow>
              spec_cumulativeSize (runningTxSize ps0) (uniqueAccounts ps0) (take j ixs) < maxTxSize)
        \<and> (k < length cands \<longrightarrow>
              spec_cumulativeSize (runningTxSize ps0) (uniqueAccounts ps0) (take (Suc k) ixs)
                \<ge> maxTxSize)"
proof (induction cands arbitrary: ps0 ixs)
  case Nil
  then show ?case by simp
next
  case (Cons c cands)
  from Cons.prems obtain ix rest where ixs: "ixs = ix # rest"
    and ix: "fillIx env nodes c = Inr ix" and rest: "map (fillIx env nodes) cands = map Inr rest"
    by (cases ixs) auto
  let ?cost = "calcIxEncodedSize ix + additionalAccountsCost (newAccountsOf (uniqueAccounts ps0) ix)"
  show ?case
  proof (cases "runningTxSize ps0 + ?cost \<ge> maxTxSize")
    case True
    then have "packIx ps0 c ix = None" by (simp add: packIx_def Let_def)
    with ix True ixs show ?thesis
      by (intro exI[of _ 0]) (simp add: add.assoc)
  next
    case False
    let ?ps1 = "\<lparr>tx = tx ps0 @ [ix], runningTxSize = runningTxSize ps0 + ?cost,
      uniqueAccounts = foldl set_add (uniqueAccounts ps0) (newAccountsOf (uniqueAccounts ps0) ix),
      nodesSent = nodesSent ps0 @ [c], idxUsed = idxUsed ps0 + 1\<rparr>"
    from False have step: "packIx ps0 c ix = Some ?ps1" by (simp add: packIx_def Let_def)
    from Cons.IH[OF rest, of ?ps1] obtain k where k: "k \<le> length cands"
      and run: "packNodes env nodes ?ps1 cands =
          Inr \<lparr>tx = tx ?ps1 @ take k rest,
               runningTxSize =
                 spec_cumulativeSize (runningTxSize ?ps1) (uniqueAccounts ?ps1) (take k rest),
               uniqueAccounts = spec_cumulativeAccounts (uniqueAccounts ?ps1) (take k rest),
               nodesSent = nodesSent ?ps1 @ take k cands,
               idxUsed = idxUsed ?ps1 + k\<rparr>"
      and below: "\<forall>j. 0 < j \<and> j \<le> k \<longrightarrow>
              spec_cumulativeSize (runningTxSize ?ps1) (uniqueAccounts ?ps1) (take j rest) < maxTxSize"
      and stop: "k < length cands \<longrightarrow>
              spec_cumulativeSize (runningTxSize ?ps1) (uniqueAccounts ?ps1) (take (Suc k) rest)
                \<ge> maxTxSize"
      by blast
    have below': "spec_cumulativeSize (runningTxSize ps0) (uniqueAccounts ps0) (take j ixs) < maxTxSize"
      if "0 < j" "j \<le> Suc k" for j
    proof -
      from that obtain i where i: "j = Suc i" "i \<le> k" by (cases j) auto
      show ?thesis
      proof (cases i)
        case 0
        with i ixs False show ?thesis by (simp add: add.assoc)
      next
        case (Suc i')
        with below i have "spec_cumulativeSize (runningTxSize ?ps1) (uniqueAccounts ?ps1)
            (take i rest) < maxTxSize" by simp
        with i ixs show ?thesis by (simp add: add.assoc)
      qed
    qed
    show ?thesis
      using k run stop below' ix step ixs
      by (intro exI[of _ "Suc k"]) (simp add: add.assoc)
  qed
qed

text \<open>
  Claim C3. When the instruction of every candidate is known (\<open>ixs\<close>), the loop
  returns, and what it has accepted is the longest prefix of the candidates whose
  cumulative estimated size stays under the budget: with \<open>k\<close> candidates accepted, in
  input order, the transaction holds their instructions after the compute-budget
  instruction, the running size is the cumulative size of these \<open>k\<close> instructions on
  top of the envelope and the account set is the one they accumulate; the cumulative
  size of the first \<open>j\<close> instructions is below \<open>maxTxSize\<close> for every \<open>j\<close> from 1 to
  \<open>k\<close>, and reaches \<open>maxTxSize\<close> for every longer prefix. So the loop stops at the
  first candidate with running size + instruction size + account cost \<open>\<ge> maxTxSize\<close>,
  and accepts nothing after it: in the example the third candidate would fit after the
  first (406 bytes) and is not accepted.
\<close>

theorem packNodes_maximal_prefix_of_budget:
  assumes "map (fillIx env nodes) cands = map Inr ixs"
  shows "\<exists>ps k. packNodes env nodes (initialPack env) cands = Inr ps
           \<and> k \<le> length cands \<and> idxUsed ps = k \<and> nodesSent ps = take k cands
           \<and> tx ps = computeBudgetIx env # take k ixs
           \<and> runningTxSize ps =
               spec_cumulativeSize (runningTxSize (initialPack env))
                 (uniqueAccounts (initialPack env)) (take k ixs)
           \<and> uniqueAccounts ps =
               spec_cumulativeAccounts (uniqueAccounts (initialPack env)) (take k ixs)
           \<and> (\<forall>j. 0 < j \<and> j \<le> k \<longrightarrow>
                spec_cumulativeSize (runningTxSize (initialPack env))
                  (uniqueAccounts (initialPack env)) (take j ixs) < maxTxSize)
           \<and> (\<forall>j. k < j \<and> j \<le> length cands \<longrightarrow>
                spec_cumulativeSize (runningTxSize (initialPack env))
                  (uniqueAccounts (initialPack env)) (take j ixs) \<ge> maxTxSize)"
proof -
  let ?cum = "spec_cumulativeSize (runningTxSize (initialPack env))
                  (uniqueAccounts (initialPack env))"
  from packNodes_spec[OF assms, of "initialPack env"] obtain k where k: "k \<le> length cands"
    and run: "packNodes env nodes (initialPack env) cands =
          Inr \<lparr>tx = tx (initialPack env) @ take k ixs,
               runningTxSize = ?cum (take k ixs),
               uniqueAccounts = spec_cumulativeAccounts (uniqueAccounts (initialPack env)) (take k ixs),
               nodesSent = nodesSent (initialPack env) @ take k cands,
               idxUsed = idxUsed (initialPack env) + k\<rparr>"
    and below: "\<forall>j. 0 < j \<and> j \<le> k \<longrightarrow> ?cum (take j ixs) < maxTxSize"
    and stop: "k < length cands \<longrightarrow> ?cum (take (Suc k) ixs) \<ge> maxTxSize"
    by blast
  have above: "?cum (take j ixs) \<ge> maxTxSize" if "k < j" "j \<le> length cands" for j
  proof -
    from that stop have "maxTxSize \<le> ?cum (take (Suc k) ixs)" by simp
    also from that have "\<dots> \<le> ?cum (take j ixs)"
      by (intro spec_cumulativeSize_mono) simp
    finally show ?thesis .
  qed
  have init: "tx (initialPack env) = [computeBudgetIx env]"
    by (simp add: initialPack_def Let_def)
  from run k below above show ?thesis
    by (simp add: initialPack_empty init)
qed

lemma ex_fillIx:
  "fillIx ex_env ex_nodes (ex_cand r) =
     Inr \<lparr>keys = [''state'', ''user'' @ toString_nat r, ''fillerStats'', ''userStats''],
          programId = ''drift'', data_byteLength = (if r = 1 then 900 else 10 + r)\<rparr>"
  by (simp add: fillIx_def getNodeFillInfo_def ex_env_def ex_nodes_def ex_cand_def)

lemma ex_initialPack:
  "initialPack ex_env =
     \<lparr>tx = [computeBudgetIx ex_env], runningTxSize = 178,
      uniqueAccounts = [''wallet'', ''ComputeBudget111111111111111111111111111111''],
      nodesSent = [], idxUsed = 0\<rparr>"
  by (simp add: initialPack_def ex_env_def set_add_def calcCompactU16EncodedSize_def
      calcIxEncodedSize_def new_Array_def)

lemma ex_run:
  "\<exists>ps. packNodes ex_env ex_nodes (initialPack ex_env) [ex_cand 0, ex_cand 1, ex_cand 2] = Inr ps
        \<and> nodesSent ps = [ex_cand 0] \<and> runningTxSize ps = 355 \<and> idxUsed ps = 1
        \<and> uniqueAccounts ps = [''wallet'', ''ComputeBudget111111111111111111111111111111'', ''state'', ''user0'', ''fillerStats'', ''userStats'', ''drift'']"
  by (simp add: ex_fillIx ex_initialPack packIx_def newAccountsOf_def additionalAccountsCost_def
      calcCompactU16EncodedSize_def calcIxEncodedSize_def new_Array_def set_add_def maxTxSize_def
      toString_nat.simps digit_char_def)


theorem packNodes_within_budget_witness:
  "\<exists>ps. packNodes ex_env ex_nodes (initialPack ex_env) [ex_cand 0, ex_cand 1, ex_cand 2] = Inr ps
     \<and> nodesSent ps = [ex_cand 0] \<and> runningTxSize ps = 355 \<and> runningTxSize ps < maxTxSize"
proof -
  from ex_run obtain ps where
    run: "packNodes ex_env ex_nodes (initialPack ex_env) [ex_cand 0, ex_cand 1, ex_cand 2] = Inr ps"
    and ps: "nodesSent ps = [ex_cand 0]" "runningTxSize ps = 355"
    by blast
  from packNodes_within_budget[OF run] ps have "runningTxSize ps < maxTxSize" by simp
  with run ps show ?thesis by blast
qed

theorem packNodes_maximal_prefix_of_budget_witness:
  "map (fillIx ex_env ex_nodes) [ex_cand 0, ex_cand 1, ex_cand 2] = map Inr [ex_ix 0, ex_ix 1, ex_ix 2]
   \<and> runningTxSize (initialPack ex_env) = 178
   \<and> spec_cumulativeSize 178 (uniqueAccounts (initialPack ex_env)) [ex_ix 0] = 355
   \<and> spec_cumulativeSize 178 (uniqueAccounts (initialPack ex_env)) [ex_ix 0, ex_ix 1] = 1295
   \<and> spec_cumulativeSize 178 (uniqueAccounts (initialPack ex_env)) [ex_ix 0, ex_ix 2] = 406
   \<and> (\<exists>ps. packNodes ex_env ex_nodes (initialPack ex_env) [ex_cand 0, ex_cand 1, ex_cand 2] = Inr ps
        \<and> idxUsed ps = 1 \<and> nodesSent ps = [ex_cand 0]
        \<and> tx ps = [computeBudgetIx ex_env, ex_ix 0] \<and> runningTxSize ps = 355)"
proof -
  let ?cands = "[ex_cand 0, ex_cand 1, ex_cand 2]"
  let ?ixs = "[ex_ix 0, ex_ix 1, ex_ix 2]"
  have known: "map (fillIx ex_env ex_nodes) ?cands = map Inr ?ixs"
    by (simp add: ex_fillIx ex_ix_def)
  have init: "runningTxSize (initialPack ex_env) = 178"
    "uniqueAccounts (initialPack ex_env) = [''wallet'', ''ComputeBudget111111111111111111111111111111'']"
    by (simp_all add: ex_initialPack)
  have sizes: "spec_cumulativeSize 178 (uniqueAccounts (initialPack ex_env)) [ex_ix 0] = 355"
    "spec_cumulativeSize 178 (uniqueAccounts (initialPack ex_env)) [ex_ix 0, ex_ix 1] = 1295"
    "spec_cumulativeSize 178 (uniqueAccounts (initialPack ex_env)) [ex_ix 0, ex_ix 2] = 406"
    by (simp_all add: init ex_ix_def newAccountsOf_def additionalAccountsCost_def
        calcCompactU16EncodedSize_def calcIxEncodedSize_def new_Array_def set_add_def
        toString_nat.simps digit_char_def)
  from packNodes_maximal_prefix_of_budget[OF known] obtain ps k where
    run: "packNodes ex_env ex_nodes (initialPack ex_env) ?cands = Inr ps"
    and k: "k \<le> length ?cands" "idxUsed ps = k" "nodesSent ps = take k ?cands"
      "tx ps = computeBudgetIx ex_env # take k ?ixs"
      "runningTxSize ps = spec_cumulativeSize (runningTxSize (initialPack ex_env))
                 (uniqueAccounts (initialPack ex_env)) (take k ?ixs)"
    by blast
  from ex_run run have one: "idxUsed ps = 1" by auto
  with k(2) have k1: "k = 1" by simp
  have sent: "nodesSent ps = [ex_cand 0]" "tx ps = [computeBudgetIx ex_env, ex_ix 0]"
    using k(3,4) unfolding k1 by simp_all
  have "runningTxSize ps = 355"
    using k(5) sizes(1) unfolding k1 init(1) by simp
  with run known init(1) sizes one sent show ?thesis by blast
qed

subsection \<open>The throttle registry\<close>

lemma filter_throttled:
  "throttledNodes st (getNodeToFillSignature (dlobNodes st) ntf) = Some t \<Longrightarrow> t' < t + W \<Longrightarrow>
     filterFillableNodes_backoff W env t' st ntf = (False, st)"
  by (simp add: filterFillableNodes_backoff_def Let_def)

lemma filter_expired:
  "throttledNodes st (getNodeToFillSignature (dlobNodes st) ntf) = Some t \<Longrightarrow> t + W \<le> t' \<Longrightarrow>
   \<not> isVammNode (dlobNodes st (node ntf)) \<Longrightarrow> \<not> haveFilled (dlobNodes st (node ntf)) \<Longrightarrow>
     filterFillableNodes_backoff W env t' st ntf =
       (makerNode ntf \<noteq> None
          \<or> isFillableByVAMM env (order (dlobNodes st (node ntf))) (marketIndex (dlobNodes st (node ntf))),
        st\<lparr>throttledNodes :=
             (throttledNodes st)(getNodeToFillSignature (dlobNodes st) ntf := None)\<rparr>)"
  by (auto simp: filterFillableNodes_backoff_def Let_def)

text \<open>With the window of the source an entry never outlives the time it was written at.\<close>

lemma filterFillableNodes_source_window:
  "throttledNodes st (getNodeToFillSignature (dlobNodes st) ntf) = Some t \<Longrightarrow> t \<le> t' \<Longrightarrow>
   \<not> isVammNode (dlobNodes st (node ntf)) \<Longrightarrow> \<not> haveFilled (dlobNodes st (node ntf)) \<Longrightarrow>
     filterFillableNodes env t' st ntf =
       (makerNode ntf \<noteq> None
          \<or> isFillableByVAMM env (order (dlobNodes st (node ntf))) (marketIndex (dlobNodes st (node ntf))),
        st\<lparr>throttledNodes :=
             (throttledNodes st)(getNodeToFillSignature (dlobNodes st) ntf := None)\<rparr>)"
  by (simp add: filterFillableNodes_def FILL_ORDER_BACKOFF_def filter_expired)

lemma signature_haveFilled:
  "getNodeToFillSignature (nodes(r := (nodes r)\<lparr>haveFilled := b\<rparr>)) ntf = getNodeToFillSignature nodes ntf"
  by (auto simp: getNodeToFillSignature_def split: option.splits)

lemma tryFillNode_catch_records:
  "throttledNodes (snd (tryFillNode_catch env now busy st ntf ua err))
     (getNodeToFillSignature (dlobNodes st) ntf) = Some now"
  by (simp add: tryFillNode_catch_def Let_def signature_haveFilled split: sum.splits)

lemma ex_signature: "getNodeToFillSignature ex_nodes (ex_cand 0) = ''user0-10''"
  by (simp add: getNodeToFillSignature_def ex_nodes_def ex_cand_def toString_nat.simps
      digit_char_def)

lemma ex_getNodeFillInfo:
  "getNodeFillInfo ex_env ex_nodes (ex_cand r) =
     Inr \<lparr>fi_makerInfo = None,
          fi_chUser = \<lparr>userAccountPublicKey = ''user'' @ toString_nat r,
                       authority = ''auth-'' @ ''user'' @ toString_nat r\<rparr>,
          fi_referrerInfo = None\<rparr>"
  by (simp add: getNodeFillInfo_def ex_env_def ex_nodes_def ex_cand_def)

lemma ex_tryFillNode:
  "tryFillNode ex_env 1000 False ex_filler (Some (ex_cand 0)) =
     (Inr None,
      ex_filler\<lparr>dlobNodes := ex_nodes(0 := (ex_nodes 0)\<lparr>haveFilled := False\<rparr>),
                throttledNodes := [''user0-10'' \<mapsto> 1000],
                dlobRemoved := [(\<lparr>orderId = 10\<rparr>, ''user0'')],
                errorLog := [OrderNotFoundRemoving 10, ErrorFilling 6000 ''user0'' 10 0],
                fillOrderCalls := [(''user0'', \<lparr>orderId = 10\<rparr>)],
                errorCodeRecords := [6000]\<rparr>)"
proof -
  have "fillOrder ex_env = (\<lambda>pk ord mi ri. Inl (SendTransactionError ''failed'' None))"
    "getErrorMessage ex_env = (\<lambda>e. ''OrderDoesNotExist'')" "getErrorCode ex_env = (\<lambda>e. 6000)"
    "dlobRemoveCallsBack ex_env = (\<lambda>ord pk. True)"
    by (simp_all add: ex_env_def)
  moreover have "ex_nodes 0 = \<lparr>userAccount = Some ''user0'', order = \<lparr>orderId = 10\<rparr>,
      marketIndex = 0, haveFilled = False, isVammNode = False\<rparr>"
    by (simp add: ex_nodes_def toString_nat.simps digit_char_def)
  moreover have "node (ex_cand 0) = 0" by (simp add: ex_cand_def)
  ultimately show ?thesis
    by (simp add: tryFillNode_def tryFillNode_catch_def ex_getNodeFillInfo Let_def ex_filler_def
        getNodeToFillSignature_def toString_nat.simps digit_char_def BN_toNumber_def)
qed

lemma ex_attempt_state:
  "dlobNodes (snd (tryFillNode ex_env 1000 False ex_filler (Some (ex_cand 0))))
     = ex_nodes(0 := (ex_nodes 0)\<lparr>haveFilled := False\<rparr>)"
  "throttledNodes (snd (tryFillNode ex_env 1000 False ex_filler (Some (ex_cand 0))))
     = [''user0-10'' \<mapsto> 1000]"
  "getNodeToFillSignature (dlobNodes (snd (tryFillNode ex_env 1000 False ex_filler
     (Some (ex_cand 0))))) (ex_cand 0) = ''user0-10''"
  "\<not> isVammNode (dlobNodes (snd (tryFillNode ex_env 1000 False ex_filler (Some (ex_cand 0))))
       (node (ex_cand 0)))"
  "\<not> haveFilled (dlobNodes (snd (tryFillNode ex_env 1000 False ex_filler (Some (ex_cand 0))))
       (node (ex_cand 0)))"
proof -
  let ?st = "snd (tryFillNode ex_env 1000 False ex_filler (Some (ex_cand 0)))"
  show nodes: "dlobNodes ?st = ex_nodes(0 := (ex_nodes 0)\<lparr>haveFilled := False\<rparr>)"
    and "throttledNodes ?st = [''user0-10'' \<mapsto> 1000]"
    unfolding ex_tryFillNode by simp_all
  show "getNodeToFillSignature (dlobNodes ?st) (ex_cand 0) = ''user0-10''"
    unfolding nodes signature_haveFilled by (rule ex_signature)
  show "\<not> isVammNode (dlobNodes ?st (node (ex_cand 0)))"
    "\<not> haveFilled (dlobNodes ?st (node (ex_cand 0)))"
    unfolding nodes by (simp_all add: ex_nodes_def ex_cand_def)
qed

text \<open>
  Claim C5, as stated for every backoff window, fails: the filter has no window to
  choose, line 182 adds the constant \<open>FILL_ORDER_BACKOFF = 0\<close>. After a failed attempt
  recorded at time 1000, the candidate passes the filter at time 3000, which lies in
  \<open>[t, t + W)\<close> for the window \<open>W = 5000\<close>.
\<close>

theorem throttle_window_counterexample:
  "throttledNodes (snd (tryFillNode ex_env 1000 False ex_filler (Some (ex_cand 0))))
     (getNodeToFillSignature ex_nodes (ex_cand 0)) = Some 1000
   \<and> (1000 :: int) \<le> 3000 \<and> (3000 :: int) < 1000 + 5000
   \<and> fst (filterFillableNodes ex_env 3000
            (snd (tryFillNode ex_env 1000 False ex_filler (Some (ex_cand 0)))) (ex_cand 0)) = True"
proof -
  let ?st = "snd (tryFillNode ex_env 1000 False ex_filler (Some (ex_cand 0)))"
  have rec: "throttledNodes ?st (getNodeToFillSignature (dlobNodes ?st) (ex_cand 0)) = Some 1000"
    unfolding ex_attempt_state(3) ex_attempt_state(2) by simp
  have "fst (filterFillableNodes ex_env 3000 ?st (ex_cand 0)) = True"
    using filterFillableNodes_source_window[OF rec _ ex_attempt_state(4,5), of 3000 ex_env]
    by (simp add: ex_env_def)
  moreover have "throttledNodes ?st (getNodeToFillSignature ex_nodes (ex_cand 0)) = Some 1000"
    unfolding ex_signature ex_attempt_state(2) by simp
  ultimately show ?thesis by simp
qed

text \<open>
  Claim C5, amended. The window is the constant \<open>FILL_ORDER_BACKOFF = 0\<close>. An attempt
  is recorded by writing the time under the candidate's signature (lines 291 and 439;
  lemma \<open>tryFillNode_catch_records\<close>). With the entry \<open>t\<close> under the signature, the
  filter of the source rejects the candidate and leaves the bot unchanged at every time
  \<open>t' < t\<close>, and at no later time because of the entry: at every time \<open>t' \<ge> t\<close> the
  throttle check lets the candidate through (what is left is the check of line 193) and
  the entry is deleted. The check is reached by the nodes that are neither internal nor
  marked filled.
\<close>

theorem throttle_source_window:
  assumes "throttledNodes st (getNodeToFillSignature (dlobNodes st) ntf) = Some t"
  shows "FILL_ORDER_BACKOFF = 0 \<and>
         (t' < t \<longrightarrow> filterFillableNodes env t' st ntf = (False, st)) \<and>
         (t \<le> t' \<and> \<not> isVammNode (dlobNodes st (node ntf))
            \<and> \<not> haveFilled (dlobNodes st (node ntf)) \<longrightarrow>
          filterFillableNodes env t' st ntf =
            (makerNode ntf \<noteq> None
               \<or> isFillableByVAMM env (order (dlobNodes st (node ntf)))
                    (marketIndex (dlobNodes st (node ntf))),
             st\<lparr>throttledNodes :=
                  (throttledNodes st)(getNodeToFillSignature (dlobNodes st) ntf := None)\<rparr>))"
  using assms filter_throttled[of st ntf t t' 0 env] filter_expired[of st ntf t 0 t' env]
  by (simp add: filterFillableNodes_def FILL_ORDER_BACKOFF_def)

theorem throttle_source_window_witness:
  "throttledNodes (snd (tryFillNode ex_env 1000 False ex_filler (Some (ex_cand 0))))
     (getNodeToFillSignature ex_nodes (ex_cand 0)) = Some 1000
   \<and> fst (filterFillableNodes ex_env 999
            (snd (tryFillNode ex_env 1000 False ex_filler (Some (ex_cand 0)))) (ex_cand 0)) = False
   \<and> fst (filterFillableNodes ex_env 1000
            (snd (tryFillNode ex_env 1000 False ex_filler (Some (ex_cand 0)))) (ex_cand 0)) = True
   \<and> throttledNodes (snd (filterFillableNodes ex_env 1000
            (snd (tryFillNode ex_env 1000 False ex_filler (Some (ex_cand 0)))) (ex_cand 0)))
        (getNodeToFillSignature ex_nodes (ex_cand 0)) = None"
proof -
  let ?st = "snd (tryFillNode ex_env 1000 False ex_filler (Some (ex_cand 0)))"
  have rec: "throttledNodes ?st (getNodeToFillSignature (dlobNodes ?st) (ex_cand 0)) = Some 1000"
    unfolding ex_attempt_state(3) ex_attempt_state(2) by simp
  have env: "makerNode (ex_cand 0) = None" "isFillableByVAMM ex_env = (\<lambda>ord mkt. True)"
    by (simp_all add: ex_cand_def ex_env_def)
  from throttle_source_window[OF rec, of 999 ex_env] throttle_source_window[OF rec, of 1000 ex_env]
    ex_attempt_state(3,4,5) env rec ex_signature
  show ?thesis by simp
qed

subsection \<open>The sentinel signature\<close>

lemma signature_not_sentinel:
  "userAccount (nodes (node ntf)) = Some ua \<Longrightarrow> getNodeToFillSignature nodes ntf \<noteq> ''~''"
  by (cases ua) (simp_all add: getNodeToFillSignature_def)

lemma signature_sentinel:
  "userAccount (nodes (node ntf)) = None \<Longrightarrow> getNodeToFillSignature nodes ntf = ''~''"
  by (simp add: getNodeToFillSignature_def)

lemma filter_sentinel:
  "throttledNodes st ''~'' = None \<Longrightarrow>
     throttledNodes (snd (filterFillableNodes_backoff W env now st ntf)) ''~'' = None"
  by (auto simp: filterFillableNodes_backoff_def Let_def split: option.splits)

lemma tryFillNode_catch_sentinel:
  "userAccount (dlobNodes st (node ntf)) = Some ua \<Longrightarrow> throttledNodes st ''~'' = None \<Longrightarrow>
     throttledNodes (snd (tryFillNode_catch env now busy st ntf ua err)) ''~'' = None"
  using signature_not_sentinel[of "dlobNodes st" ntf ua]
  by (simp add: tryFillNode_catch_def Let_def signature_haveFilled split: sum.splits)

lemma tryFillNode_sentinel:
  "throttledNodes st ''~'' = None \<Longrightarrow>
     throttledNodes (snd (tryFillNode env now busy st nodeToFill)) ''~'' = None"
  by (simp add: tryFillNode_def Let_def tryFillNode_catch_sentinel
      split: option.splits sum.splits)

lemma assocOrder_frame:
  "assocOrder st nodesFilled ls l = (r, st1) \<Longrightarrow>
     throttledNodes st1 = throttledNodes st \<and> dlobNodes st1 = dlobNodes st
     \<and> dlobRemoved st1 = dlobRemoved st \<and> sentTxs st1 = sentTxs st \<and> dryRun st1 = dryRun st"
  by (auto simp: assocOrder_def Let_def split: option.splits sum.splits)

lemma assocOrder_Inr:
  "assocOrder st nodesFilled ls l = (Inr (filledNode, ua), st1) \<Longrightarrow>
     userAccount (dlobNodes st (node filledNode)) = Some ua
     \<and> array_get nodesFilled (ixIdx ls) = Some filledNode"
  by (auto simp: assocOrder_def Let_def split: option.splits sum.splits)

lemma processLog_effect:
  assumes "processLog env now busy nodesFilled txSig ls st log = (r, st')"
  shows "dlobNodes st' = dlobNodes st \<and> sentTxs st' = sentTxs st \<and> dryRun st' = dryRun st \<and>
         (throttledNodes st' = throttledNodes st \<or>
          (\<exists>filledNode ua. userAccount (dlobNodes st (node filledNode)) = Some ua
              \<and> throttledNodes st' =
                  (throttledNodes st)(getNodeToFillSignature (dlobNodes st) filledNode \<mapsto> now)))"
proof (cases log)
  case None
  with assms show ?thesis by (auto simp: processLog_def)
next
  case (Some l)
  obtain a st1 where a: "assocOrder st nodesFilled ls l = (a, st1)"
    by (cases "assocOrder st nodesFilled ls l")
  note fr = assocOrder_frame[OF a]
  show ?thesis
  proof (cases a)
    case (Inl e)
    with assms Some a fr show ?thesis
      by (auto simp: processLog_def split: if_splits)
  next
    case (Inr p)
    obtain filledNode ua where p: "p = (filledNode, ua)" by (cases p)
    from assocOrder_Inr[of st nodesFilled ls l filledNode ua st1] a Inr p
    have ua: "userAccount (dlobNodes st (node filledNode)) = Some ua" by simp
    from assms Some a Inr p fr ua show ?thesis
      by (auto simp: processLog_def Let_def split: if_splits)
  qed
qed

lemma processLog_frame:
  assumes "processLog env now busy nodesFilled txSig ls st log = (r, st')"
  shows "dlobNodes st' = dlobNodes st \<and> sentTxs st' = sentTxs st \<and> dryRun st' = dryRun st \<and>
         (throttledNodes st ''~'' = None \<longrightarrow> throttledNodes st' ''~'' = None)"
proof -
  from processLog_effect[OF assms] consider
    (same) "throttledNodes st' = throttledNodes st"
  | (attempt) filledNode ua where "userAccount (dlobNodes st (node filledNode)) = Some ua"
      "throttledNodes st' =
         (throttledNodes st)(getNodeToFillSignature (dlobNodes st) filledNode \<mapsto> now)"
    by blast
  then have "throttledNodes st ''~'' = None \<longrightarrow> throttledNodes st' ''~'' = None"
  proof cases
    case same
    then show ?thesis by simp
  next
    case attempt
    from signature_not_sentinel[of "dlobNodes st" filledNode ua] attempt show ?thesis
      by simp
  qed
  with processLog_effect[OF assms] show ?thesis by simp
qed

lemma processLogs_frame:
  "processLogs env clock busy nodesFilled txSig i ls st logs = (r, st') \<Longrightarrow>
     dlobNodes st' = dlobNodes st \<and> sentTxs st' = sentTxs st \<and> dryRun st' = dryRun st \<and>
     (throttledNodes st ''~'' = None \<longrightarrow> throttledNodes st' ''~'' = None)"
proof (induction logs arbitrary: i ls st)
  case Nil
  then show ?case by simp
next
  case (Cons log logs)
  obtain r1 st1 where p: "processLog env (clock i) (busy i) nodesFilled txSig ls st log = (r1, st1)"
    by (cases "processLog env (clock i) (busy i) nodesFilled txSig ls st log")
  note f1 = processLog_frame[OF p]
  show ?case
  proof (cases r1)
    case (Inl e)
    with Cons.prems p f1 show ?thesis by simp
  next
    case (Inr ls1)
    with Cons.prems p
    have "processLogs env clock busy nodesFilled txSig (i + 1) ls1 st1 logs = (r, st')"
      by simp
    from Cons.IH[OF this] f1 show ?thesis by simp
  qed
qed

lemma processBulkFillTxLogs_frame:
  assumes "processBulkFillTxLogs env clock busy st nodesFilled txSig = (r, st')"
  shows "dlobNodes st' = dlobNodes st \<and> sentTxs st' = sentTxs st \<and> dryRun st' = dryRun st \<and>
         (throttledNodes st ''~'' = None \<longrightarrow> throttledNodes st' ''~'' = None)"
proof (cases "fetchTx env txSig 0")
  case (Inl e)
  with assms show ?thesis by (auto simp: processBulkFillTxLogs_def)
next
  case (Inr found)
  show ?thesis
  proof (cases "case found of None \<Rightarrow> None | Some resp \<Rightarrow> logMessages resp")
    case None
    with assms Inr show ?thesis
      by (auto simp: processBulkFillTxLogs_def split: option.splits)
  next
    case (Some logs)
    then obtain resp where resp: "found = Some resp" "logMessages resp = Some logs"
      by (auto split: option.splits)
    obtain r1 st1 where p: "processLogs env clock busy nodesFilled txSig 0
          \<lparr>nextIsFillRecord = False, ixIdx = - 1, successCount = 0\<rparr> st logs = (r1, st1)"
      by (cases "processLogs env clock busy nodesFilled txSig 0
          \<lparr>nextIsFillRecord = False, ixIdx = - 1, successCount = 0\<rparr> st logs")
    from processLogs_frame[OF p] assms Inr resp p show ?thesis
      by (auto simp: processBulkFillTxLogs_def split: sum.splits if_splits)
  qed
qed

lemma tryBulkFillNodes_catch_frame:
  "tryBulkFillNodes_catch st e = (r, st') \<Longrightarrow>
     throttledNodes st' = throttledNodes st \<and> dlobNodes st' = dlobNodes st
     \<and> dlobRemoved st' = dlobRemoved st \<and> sentTxs st' = sentTxs st \<and> dryRun st' = dryRun st"
  by (auto simp: tryBulkFillNodes_catch_def Let_def split: option.splits)

lemma tryBulkFillNodes_frame:
  assumes "tryBulkFillNodes env clock busy st nodesToFill = (r, st')"
  shows "dlobNodes st' = dlobNodes st \<and> dryRun st' = dryRun st \<and>
         (throttledNodes st ''~'' = None \<longrightarrow> throttledNodes st' ''~'' = None)"
proof (cases "packNodes env (dlobNodes st) (initialPack env) nodesToFill")
  case (Inl e)
  with assms show ?thesis by (auto simp: tryBulkFillNodes_def)
next
  case (Inr ps)
  let ?st0 = "st\<lparr>sentTxs := sentTxs st @ [tx ps]\<rparr>"
  show ?thesis
  proof (cases "nodesSent ps = []")
    case True
    with assms Inr show ?thesis by (auto simp: tryBulkFillNodes_def)
  next
    case False
    show ?thesis
    proof (cases "txSender_send env (tx ps)")
      case (Inl e)
      with assms Inr False have "tryBulkFillNodes_catch ?st0 e = (r, st')"
        by (simp add: tryBulkFillNodes_def Let_def)
      from tryBulkFillNodes_catch_frame[OF this] show ?thesis by simp
    next
      case (Inr txSig)
      obtain r1 st1 where p:
        "processBulkFillTxLogs env clock busy ?st0 (nodesSent ps) txSig = (r1, st1)"
        by (cases "processBulkFillTxLogs env clock busy ?st0 (nodesSent ps) txSig")
      note f1 = processBulkFillTxLogs_frame[OF p]
      show ?thesis
      proof (cases r1)
        case (Inl e)
        with assms \<open>packNodes env (dlobNodes st) (initialPack env) nodesToFill = Inr ps\<close>
          False Inr p
        have "tryBulkFillNodes_catch st1 e = (r, st')"
          by (simp add: tryBulkFillNodes_def Let_def)
        from tryBulkFillNodes_catch_frame[OF this] f1 show ?thesis by simp
      next
        case (Inr u)
        with assms \<open>packNodes env (dlobNodes st) (initialPack env) nodesToFill = Inr ps\<close>
          False \<open>txSender_send env (tx ps) = Inr txSig\<close> p f1
        show ?thesis
          by (auto simp: tryBulkFillNodes_def Let_def split: if_splits)
      qed
    qed
  qed
qed

lemma reachable_sentinel: "reachable st \<Longrightarrow> throttledNodes st ''~'' = None"
proof (induction rule: reachable.induct)
  case (created st)
  then show ?case by simp
next
  case (orderBook st nodes)
  then show ?case by simp
next
  case (filtered st backoff env now ntf)
  then show ?case by (simp add: filter_sentinel)
next
  case (fallback st env now busy nodeToFill)
  then show ?case by (simp add: tryFillNode_sentinel)
next
  case (reconciled st env clock busys nodesFilled txSig)
  then show ?case
    using processBulkFillTxLogs_frame[of env clock busys st nodesFilled txSig]
    by (cases "processBulkFillTxLogs env clock busys st nodesFilled txSig") simp
next
  case (submitted st env clock busys nodesToFill)
  then show ?case
    using tryBulkFillNodes_frame[of env clock busys st nodesToFill]
    by (cases "tryBulkFillNodes env clock busys st nodesToFill") simp
qed

text \<open>
  Claim C6. In every state the bot can reach, the registry has no entry under the
  sentinel signature: both places that record an attempt first evaluate
  \<^verbatim>\<open>userAccount.toString()\<close> for a log message (lines 257 and 437), which raises on
  a candidate without an account reference, and the signature of a candidate with one is
  never the sentinel. So the throttle check never rejects a candidate whose signature is
  the sentinel, whatever the window and whatever was attempted before: the filter
  answers as it would with an empty registry, and leaves the bot unchanged.
\<close>

theorem sentinel_never_throttled:
  assumes "reachable st" and "userAccount (dlobNodes st (node ntf)) = None"
  shows "throttledNodes st (getNodeToFillSignature (dlobNodes st) ntf) = None \<and>
         filterFillableNodes_backoff W env now st ntf =
           (\<not> isVammNode (dlobNodes st (node ntf)) \<and> \<not> haveFilled (dlobNodes st (node ntf))
              \<and> (makerNode ntf \<noteq> None
                   \<or> isFillableByVAMM env (order (dlobNodes st (node ntf)))
                        (marketIndex (dlobNodes st (node ntf)))),
            st)"
  using reachable_sentinel[OF assms(1)] signature_sentinel[of "dlobNodes st" ntf] assms(2)
  by (auto simp: filterFillableNodes_backoff_def Let_def)


theorem sentinel_never_throttled_witness:
  "reachable (snd (tryFillNode ex_env 1000 False ex_sentinel_filler (Some (ex_cand 3))))
   \<and> userAccount (dlobNodes (snd (tryFillNode ex_env 1000 False ex_sentinel_filler
          (Some (ex_cand 3)))) (node (ex_cand 3))) = None
   \<and> fst (tryFillNode ex_env 1000 False ex_sentinel_filler (Some (ex_cand 3))) = Inl TypeError
   \<and> fst (filterFillableNodes_backoff 5000 ex_env 1001
            (snd (tryFillNode ex_env 1000 False ex_sentinel_filler (Some (ex_cand 3))))
            (ex_cand 3)) = True"
proof -
  let ?st = "snd (tryFillNode ex_env 1000 False ex_sentinel_filler (Some (ex_cand 3)))"
  have attempt: "tryFillNode ex_env 1000 False ex_sentinel_filler (Some (ex_cand 3))
      = (Inl TypeError, ex_sentinel_filler)"
    by (simp add: tryFillNode_def ex_sentinel_filler_def ex_cand_def)
  have "reachable ex_sentinel_filler"
    by (rule reachable.created) (simp add: ex_sentinel_filler_def ex_filler_def)
  then have reach: "reachable ?st" by (rule reachable.fallback)
  have sentinel: "userAccount (dlobNodes ?st (node (ex_cand 3))) = None"
    unfolding attempt by (simp add: ex_sentinel_filler_def ex_cand_def)
  have node: "\<not> isVammNode (dlobNodes ?st (node (ex_cand 3)))"
    "\<not> haveFilled (dlobNodes ?st (node (ex_cand 3)))"
    "isFillableByVAMM ex_env = (\<lambda>ord mkt. True)"
    unfolding attempt by (simp_all add: ex_sentinel_filler_def ex_cand_def ex_nodes_def ex_env_def)
  from sentinel_never_throttled[OF reach sentinel, of 5000 ex_env 1001] node reach sentinel attempt
  show ?thesis by simp
qed

subsection \<open>The filled flag\<close>

lemma filter_nodes:
  "dlobNodes (snd (filterFillableNodes_backoff W env now st ntf)) = dlobNodes st"
  by (auto simp: filterFillableNodes_backoff_def Let_def split: option.splits)

lemma tryFillNode_catch_nodes:
  "dlobNodes (snd (tryFillNode_catch env now busy st ntf ua err)) =
     (dlobNodes st)(node ntf := (dlobNodes st (node ntf))\<lparr>haveFilled := False\<rparr>)"
  by (simp add: tryFillNode_catch_def Let_def split: sum.splits)

text \<open>
  Claim C9, as stated, fails: the single-candidate path writes the flag. With a node
  that the order book marked filled and a failing \<^verbatim>\<open>fillOrder\<close>, line 290 resets the
  flag to false.
\<close>

theorem filled_flag_counterexample:
  "haveFilled (dlobNodes ex_filled_filler 0)
   \<and> \<not> haveFilled (dlobNodes (snd (tryFillNode ex_env 1000 False ex_filled_filler
                                      (Some (ex_cand 0)))) 0)"
proof -
  have "getNodeFillInfo ex_env (dlobNodes ex_filled_filler) (ex_cand 0) =
     Inr \<lparr>fi_makerInfo = None,
          fi_chUser = \<lparr>userAccountPublicKey = ''user0'', authority = ''auth-user0''\<rparr>,
          fi_referrerInfo = None\<rparr>"
    by (simp add: getNodeFillInfo_def ex_env_def ex_nodes_def ex_cand_def ex_filled_filler_def
        toString_nat.simps digit_char_def)
  moreover have "fillOrder ex_env = (\<lambda>pk ord mi ri. Inl (SendTransactionError ''failed'' None))"
    by (simp add: ex_env_def)
  moreover have "userAccount (dlobNodes ex_filled_filler (node (ex_cand 0))) = Some ''user0''"
    "\<not> dryRun ex_filled_filler" "node (ex_cand 0) = 0"
    by (simp_all add: ex_nodes_def ex_cand_def ex_filled_filler_def ex_filler_def
        toString_nat.simps digit_char_def)
  ultimately have "dlobNodes (snd (tryFillNode ex_env 1000 False ex_filled_filler
                                      (Some (ex_cand 0)))) 0
      = (dlobNodes ex_filled_filler 0)\<lparr>haveFilled := False\<rparr>"
    by (simp add: tryFillNode_def Let_def tryFillNode_catch_nodes)
  then show ?thesis by (simp add: ex_filled_filler_def ex_filler_def)
qed


lemma tryFillNode_nodes:
  "dlobNodes (snd (tryFillNode env now busy st nodeToFill)) = dlobNodes st
   \<or> (\<exists>ntf ua info err.
         nodeToFill = Some ntf \<and> userAccount (dlobNodes st (node ntf)) = Some ua
         \<and> getNodeFillInfo env (dlobNodes st) ntf = Inr info \<and> \<not> dryRun st
         \<and> fillOrder env ua (order (dlobNodes st (node ntf))) (fi_makerInfo info)
              (fi_referrerInfo info) = Inl err
         \<and> dlobNodes (snd (tryFillNode env now busy st nodeToFill)) =
             (dlobNodes st)(node ntf := (dlobNodes st (node ntf))\<lparr>haveFilled := False\<rparr>))"
  by (auto simp: tryFillNode_def Let_def tryFillNode_catch_nodes split: option.splits sum.splits)

text \<open>
  Claim C9, amended. Filtering, reconciliation and the batched submission (with its
  packing) leave every node of the order book as it was, so the flag is only read there.
  \<^verbatim>\<open>tryFillNode\<close> leaves the nodes as they were too, unless its \<^verbatim>\<open>fillOrder\<close>
  fails: then the candidate's flag is reset to false (line 290) and nothing else of the
  nodes changes.
\<close>

theorem filled_flag_written_only_by_fallback:
  "dlobNodes (snd (filterFillableNodes_backoff W env now st ntf)) = dlobNodes st
   \<and> dlobNodes (snd (processBulkFillTxLogs env clock busys st nodesFilled txSig)) = dlobNodes st
   \<and> dlobNodes (snd (tryBulkFillNodes env clock busys st nodesToFill)) = dlobNodes st
   \<and> (dlobNodes (snd (tryFillNode env now busy st nodeToFill)) = dlobNodes st
      \<or> (\<exists>ntf ua info err.
            nodeToFill = Some ntf \<and> userAccount (dlobNodes st (node ntf)) = Some ua
            \<and> getNodeFillInfo env (dlobNodes st) ntf = Inr info \<and> \<not> dryRun st
            \<and> fillOrder env ua (order (dlobNodes st (node ntf))) (fi_makerInfo info)
                 (fi_referrerInfo info) = Inl err
            \<and> dlobNodes (snd (tryFillNode env now busy st nodeToFill)) =
                (dlobNodes st)(node ntf := (dlobNodes st (node ntf))\<lparr>haveFilled := False\<rparr>)))"
proof -
  have "dlobNodes (snd (processBulkFillTxLogs env clock busys st nodesFilled txSig)) = dlobNodes st"
    using processBulkFillTxLogs_frame[of env clock busys st nodesFilled txSig]
    by (cases "processBulkFillTxLogs env clock busys st nodesFilled txSig") simp
  moreover
  have "dlobNodes (snd (tryBulkFillNodes env clock busys st nodesToFill)) = dlobNodes st"
    using tryBulkFillNodes_frame[of env clock busys st nodesToFill]
    by (cases "tryBulkFillNodes env clock busys st nodesToFill") simp
  ultimately show ?thesis
    using filter_nodes[of W env now st ntf] tryFillNode_nodes[of env now busy st nodeToFill]
    by blast
qed

subsection \<open>Failure of the batched submission\<close>

lemma tryBulkFillNodes_send_failure:
  assumes "packNodes env (dlobNodes st) (initialPack env) cands = Inr ps" "nodesSent ps \<noteq> []"
    "txSender_send env (tx ps) = Inl e"
  shows "throttledNodes (snd (tryBulkFillNodes env clock busy st cands)) = throttledNodes st
         \<and> dlobRemoved (snd (tryBulkFillNodes env clock busy st cands)) = dlobRemoved st
         \<and> fst (tryBulkFillNodes env clock busy st cands)
             = (case error_logs e of None \<Rightarrow> Inl TypeError | Some logs \<Rightarrow> Inr None)"
proof -
  have run: "tryBulkFillNodes env clock busy st cands =
      tryBulkFillNodes_catch (st\<lparr>sentTxs := sentTxs st @ [tx ps]\<rparr>) e"
    using assms by (simp add: tryBulkFillNodes_def Let_def)
  show ?thesis
    unfolding run by (simp add: tryBulkFillNodes_catch_def Let_def split: option.splits)
qed

lemma ex_pack_one:
  "\<exists>ps. packNodes ex_env ex_nodes (initialPack ex_env) [ex_cand 0] = Inr ps
        \<and> nodesSent ps = [ex_cand 0]
        \<and> tx ps = [computeBudgetIx ex_env,
             \<lparr>keys = [''state'', ''user0'', ''fillerStats'', ''userStats''], programId = ''drift'',
              data_byteLength = 10\<rparr>]"
  by (simp add: ex_fillIx ex_initialPack packIx_def newAccountsOf_def additionalAccountsCost_def
      calcCompactU16EncodedSize_def calcIxEncodedSize_def new_Array_def set_add_def maxTxSize_def
      toString_nat.simps digit_char_def)

lemma packNodes_fillIx_cong:
  "fillIx env1 = fillIx env2 \<Longrightarrow> packNodes env1 nodes ps cands = packNodes env2 nodes ps cands"
  by (induction cands arbitrary: ps) (simp_all split: sum.splits option.splits)

lemma ex_failing_env_pack:
  "packNodes ex_failing_env nodes (initialPack ex_failing_env) cands
     = packNodes ex_env nodes (initialPack ex_env) cands"
proof -
  have ix: "fillIx ex_failing_env = fillIx ex_env"
    by (intro ext)
       (simp add: fillIx_def getNodeFillInfo_def ex_failing_env_def
          cong: option.case_cong sum.case_cong)
  have init: "initialPack ex_failing_env = initialPack ex_env"
    by (simp add: initialPack_def ex_failing_env_def)
  show ?thesis
    unfolding init by (rule packNodes_fillIx_cong[OF ix])
qed

text \<open>
  Claim C7. The claim: after a transport-level failure of the batched submission every
  candidate of the batch is marked as attempted, and a removal is scheduled for the
  candidates whose diagnostics say that the order does not exist. The \<^verbatim>\<open>catch\<close> block
  of lines 607-614 only logs: whatever the error, the registry and the removals are as
  before (lemma \<open>tryBulkFillNodes_send_failure\<close>), and an error without simulation logs
  makes the block itself raise. Here the batch holds one candidate and the sender fails
  with the diagnostic of a missing order: no attempt is recorded for the candidate and
  no removal is asked of the order book. (That nothing is retried holds: the function
  returns after the block.)
\<close>

theorem tryBulkFillNodes_send_failure_example:
  "fst (tryBulkFillNodes ex_failing_env (\<lambda>i. 1000) (\<lambda>i. False) ex_filler [ex_cand 0]) = Inr None
   \<and> throttledNodes (snd (tryBulkFillNodes ex_failing_env (\<lambda>i. 1000) (\<lambda>i. False) ex_filler
        [ex_cand 0])) (getNodeToFillSignature ex_nodes (ex_cand 0)) = None
   \<and> dlobRemoved (snd (tryBulkFillNodes ex_failing_env (\<lambda>i. 1000) (\<lambda>i. False) ex_filler
        [ex_cand 0])) = []"
proof -
  from ex_pack_one obtain ps where
    run: "packNodes ex_env ex_nodes (initialPack ex_env) [ex_cand 0] = Inr ps"
    and sent: "nodesSent ps = [ex_cand 0]"
    by blast
  have nodes: "dlobNodes ex_filler = ex_nodes" by (simp add: ex_filler_def)
  have ps: "packNodes ex_failing_env (dlobNodes ex_filler) (initialPack ex_failing_env) [ex_cand 0]
           = Inr ps" "nodesSent ps \<noteq> []"
    unfolding ex_failing_env_pack nodes using run sent by simp_all
  have send: "txSender_send ex_failing_env (tx ps) = Inl (SendTransactionError
      ''failed to send transaction'' (Some [''Program log: Order does not exist'']))"
    by (simp add: ex_failing_env_def)
  from tryBulkFillNodes_send_failure[OF ps send, of "\<lambda>i. 1000" "\<lambda>i. False"]
  show ?thesis by (simp add: error_logs_def ex_filler_def)
qed


subsection \<open>The dry-run flag\<close>

lemma assocOrder_dryRun:
  "assocOrder (st\<lparr>dryRun := d\<rparr>) nodesFilled ls l =
     (case assocOrder st nodesFilled ls l of (r, st1) \<Rightarrow> (r, st1\<lparr>dryRun := d\<rparr>))"
  by (simp add: assocOrder_def Let_def split: option.splits sum.splits)

lemma processLog_dryRun:
  "processLog env now busy nodesFilled txSig ls (st\<lparr>dryRun := d\<rparr>) log =
     (case processLog env now busy nodesFilled txSig ls st log of
        (r, st1) \<Rightarrow> (r, st1\<lparr>dryRun := d\<rparr>))"
proof (cases log)
  case None
  then show ?thesis by (simp add: processLog_def)
next
  case (Some l)
  obtain a st1 where a: "assocOrder st nodesFilled ls l = (a, st1)"
    by (cases "assocOrder st nodesFilled ls l")
  show ?thesis
  proof (cases a)
    case (Inl e)
    with Some a show ?thesis by (simp add: processLog_def assocOrder_dryRun)
  next
    case (Inr p)
    obtain filledNode ua where "p = (filledNode, ua)" by (cases p)
    with Some a Inr show ?thesis by (simp add: processLog_def assocOrder_dryRun Let_def)
  qed
qed

lemma processLogs_dryRun:
  "processLogs env clock busy nodesFilled txSig i ls (st\<lparr>dryRun := d\<rparr>) logs =
     (case processLogs env clock busy nodesFilled txSig i ls st logs of
        (r, st1) \<Rightarrow> (r, st1\<lparr>dryRun := d\<rparr>))"
proof (induction logs arbitrary: i ls st)
  case Nil
  then show ?case by simp
next
  case (Cons log logs)
  obtain r1 st1 where p: "processLog env (clock i) (busy i) nodesFilled txSig ls st log = (r1, st1)"
    by (cases "processLog env (clock i) (busy i) nodesFilled txSig ls st log")
  show ?case
  proof (cases r1)
    case (Inl e)
    with p show ?thesis by (simp add: processLog_dryRun)
  next
    case (Inr ls1)
    with p Cons.IH[of "i + 1" ls1 st1] show ?thesis by (simp add: processLog_dryRun)
  qed
qed

lemma processBulkFillTxLogs_dryRun:
  "processBulkFillTxLogs env clock busy (st\<lparr>dryRun := d\<rparr>) nodesFilled txSig =
     (case processBulkFillTxLogs env clock busy st nodesFilled txSig of
        (r, st1) \<Rightarrow> (r, st1\<lparr>dryRun := d\<rparr>))"
proof (cases "fetchTx env txSig 0")
  case (Inl e)
  then show ?thesis by (simp add: processBulkFillTxLogs_def)
next
  case (Inr found)
  show ?thesis
  proof (cases "case found of None \<Rightarrow> None | Some resp \<Rightarrow> logMessages resp")
    case None
    with Inr show ?thesis
      by (auto simp: processBulkFillTxLogs_def split: option.splits)
  next
    case (Some logs)
    then obtain resp where resp: "found = Some resp" "logMessages resp = Some logs"
      by (auto split: option.splits)
    obtain r1 st1 where p: "processLogs env clock busy nodesFilled txSig 0
          \<lparr>nextIsFillRecord = False, ixIdx = - 1, successCount = 0\<rparr> st logs = (r1, st1)"
      by (cases "processLogs env clock busy nodesFilled txSig 0
          \<lparr>nextIsFillRecord = False, ixIdx = - 1, successCount = 0\<rparr> st logs")
    from Inr resp p show ?thesis
      by (cases r1) (simp_all add: processBulkFillTxLogs_def processLogs_dryRun)
  qed
qed

lemma tryBulkFillNodes_catch_dryRun:
  "tryBulkFillNodes_catch (st\<lparr>dryRun := d\<rparr>) e =
     (case tryBulkFillNodes_catch st e of (r, st1) \<Rightarrow> (r, st1\<lparr>dryRun := d\<rparr>))"
  by (simp add: tryBulkFillNodes_catch_def Let_def split: option.splits)

lemma tryBulkFillNodes_dryRun:
  "tryBulkFillNodes env clock busy (st\<lparr>dryRun := d\<rparr>) nodesToFill =
     (case tryBulkFillNodes env clock busy st nodesToFill of
        (r, st1) \<Rightarrow> (r, st1\<lparr>dryRun := d\<rparr>))"
proof (cases "packNodes env (dlobNodes st) (initialPack env) nodesToFill")
  case (Inl e)
  then show ?thesis by (simp add: tryBulkFillNodes_def)
next
  case (Inr ps)
  let ?st0 = "st\<lparr>sentTxs := sentTxs st @ [tx ps]\<rparr>"
  have st0: "st\<lparr>dryRun := d, sentTxs := sentTxs st @ [tx ps]\<rparr> = ?st0\<lparr>dryRun := d\<rparr>"
    by simp
  show ?thesis
  proof (cases "txSender_send env (tx ps)")
    case (Inl e)
    with \<open>packNodes env (dlobNodes st) (initialPack env) nodesToFill = Inr ps\<close> show ?thesis
      by (simp add: tryBulkFillNodes_def Let_def st0 tryBulkFillNodes_catch_dryRun
          del: filler.update_convs)
  next
    case (Inr txSig)
    obtain r1 st1 where p:
      "processBulkFillTxLogs env clock busy ?st0 (nodesSent ps) txSig = (r1, st1)"
      by (cases "processBulkFillTxLogs env clock busy ?st0 (nodesSent ps) txSig")
    from \<open>packNodes env (dlobNodes st) (initialPack env) nodesToFill = Inr ps\<close> Inr p
    show ?thesis
      by (cases r1)
         (simp_all add: tryBulkFillNodes_def Let_def st0 processBulkFillTxLogs_dryRun
            tryBulkFillNodes_catch_dryRun)
  qed
qed

lemma tryBulkFillNodes_sends:
  assumes "packNodes env (dlobNodes st) (initialPack env) cands = Inr ps" "nodesSent ps \<noteq> []"
  shows "sentTxs (snd (tryBulkFillNodes env clock busy st cands)) = sentTxs st @ [tx ps]"
proof -
  let ?st0 = "st\<lparr>sentTxs := sentTxs st @ [tx ps]\<rparr>"
  show ?thesis
  proof (cases "txSender_send env (tx ps)")
    case (Inl e)
    with assms have "tryBulkFillNodes env clock busy st cands = tryBulkFillNodes_catch ?st0 e"
      by (simp add: tryBulkFillNodes_def Let_def)
    with tryBulkFillNodes_catch_frame[of ?st0 e] show ?thesis
      by (cases "tryBulkFillNodes_catch ?st0 e") simp
  next
    case (Inr txSig)
    obtain r1 st1 where p:
      "processBulkFillTxLogs env clock busy ?st0 (nodesSent ps) txSig = (r1, st1)"
      by (cases "processBulkFillTxLogs env clock busy ?st0 (nodesSent ps) txSig")
    note f1 = processBulkFillTxLogs_frame[OF p]
    show ?thesis
    proof (cases r1)
      case (Inl e)
      with assms Inr p have "tryBulkFillNodes env clock busy st cands = tryBulkFillNodes_catch st1 e"
        by (simp add: tryBulkFillNodes_def Let_def)
      with tryBulkFillNodes_catch_frame[of st1 e] f1 show ?thesis
        by (cases "tryBulkFillNodes_catch st1 e") simp
    next
      case (Inr u)
      with assms \<open>txSender_send env (tx ps) = Inr txSig\<close> p f1 show ?thesis
        by (simp add: tryBulkFillNodes_def Let_def)
    qed
  qed
qed

lemma tryFillNode_dryRun:
  "dryRun st \<Longrightarrow>
     fillOrderCalls (snd (tryFillNode env now busy st nodeToFill)) = fillOrderCalls st
     \<and> sentTxs (snd (tryFillNode env now busy st nodeToFill)) = sentTxs st"
  by (simp add: tryFillNode_def split: option.splits sum.splits)

lemma tryFillNode_dryRun_returns:
  "dryRun st \<Longrightarrow> userAccount (dlobNodes st (node ntf)) = Some ua \<Longrightarrow>
   getNodeFillInfo env (dlobNodes st) ntf = Inr info \<Longrightarrow>
     tryFillNode env now busy st (Some ntf) = (Inr None, st)"
  by (simp add: tryFillNode_def)

text \<open>
  Claim C10. With \<^verbatim>\<open>dryRun\<close> set, \<^verbatim>\<open>tryFillNode\<close> submits nothing, and returns
  right after resolving the fill information without touching the bot.
  \<^verbatim>\<open>tryBulkFillNodes\<close> never reads the flag: whenever its packing accepts a candidate
  it calls the sender with the packed transaction, and its result and its effects are
  the same for either value of the flag.
\<close>

theorem dryRun_only_on_fallback:
  "(dryRun st \<longrightarrow>
      fillOrderCalls (snd (tryFillNode env now busy st nodeToFill)) = fillOrderCalls st
      \<and> sentTxs (snd (tryFillNode env now busy st nodeToFill)) = sentTxs st
      \<and> (\<forall>ntf ua info. nodeToFill = Some ntf \<and> userAccount (dlobNodes st (node ntf)) = Some ua
            \<and> getNodeFillInfo env (dlobNodes st) ntf = Inr info \<longrightarrow>
            tryFillNode env now busy st nodeToFill = (Inr None, st)))
   \<and> (\<forall>ps. packNodes env (dlobNodes st) (initialPack env) cands = Inr ps \<and> nodesSent ps \<noteq> [] \<longrightarrow>
         sentTxs (snd (tryBulkFillNodes env clock busys st cands)) = sentTxs st @ [tx ps])
   \<and> tryBulkFillNodes env clock busys (st\<lparr>dryRun := d\<rparr>) cands =
       (fst (tryBulkFillNodes env clock busys st cands),
        (snd (tryBulkFillNodes env clock busys st cands))\<lparr>dryRun := d\<rparr>)"
  using tryFillNode_dryRun[of st env now busy nodeToFill]
    tryFillNode_dryRun_returns[of st _ _ env _ now busy]
    tryBulkFillNodes_sends[of env st cands _ clock busys]
  by (auto simp: tryBulkFillNodes_dryRun split: prod.splits)


theorem dryRun_only_on_fallback_witness:
  "dryRun (ex_filler\<lparr>dryRun := True\<rparr>)
   \<and> tryFillNode ex_env 1000 False (ex_filler\<lparr>dryRun := True\<rparr>) (Some (ex_cand 0))
       = (Inr None, ex_filler\<lparr>dryRun := True\<rparr>)
   \<and> sentTxs (snd (tryBulkFillNodes ex_env (\<lambda>i. 1000) (\<lambda>i. False) (ex_filler\<lparr>dryRun := True\<rparr>)
        [ex_cand 0]))
       = [[computeBudgetIx ex_env,
           \<lparr>keys = [''state'', ''user0'', ''fillerStats'', ''userStats''], programId = ''drift'',
            data_byteLength = 10\<rparr>]]"
proof -
  let ?st = "ex_filler\<lparr>dryRun := True\<rparr>"
  have nodes: "dlobNodes ?st = ex_nodes" and dry: "dryRun ?st" and sent: "sentTxs ?st = []"
    by (simp_all add: ex_filler_def)
  from ex_pack_one obtain ps where
    ps: "packNodes ex_env (dlobNodes ?st) (initialPack ex_env) [ex_cand 0] = Inr ps"
      "nodesSent ps \<noteq> []"
      "tx ps = [computeBudgetIx ex_env,
             \<lparr>keys = [''state'', ''user0'', ''fillerStats'', ''userStats''], programId = ''drift'',
              data_byteLength = 10\<rparr>]"
    unfolding nodes by auto
  have ua: "userAccount (dlobNodes ?st (node (ex_cand 0))) = Some ''user0''"
    unfolding nodes by (simp add: ex_nodes_def ex_cand_def toString_nat.simps digit_char_def)
  have info: "getNodeFillInfo ex_env (dlobNodes ?st) (ex_cand 0) =
     Inr \<lparr>fi_makerInfo = None,
          fi_chUser = \<lparr>userAccountPublicKey = ''user'' @ toString_nat 0,
                       authority = ''auth-'' @ ''user'' @ toString_nat 0\<rparr>,
          fi_referrerInfo = None\<rparr>"
    unfolding nodes by (rule ex_getNodeFillInfo)
  from dryRun_only_on_fallback[of ?st ex_env 1000 False "Some (ex_cand 0)" "[ex_cand 0]"
      "\<lambda>i. 1000" "\<lambda>i. False" True] dry ua info ps sent
  show ?thesis by simp
qed

subsection \<open>Reconciliation of a result log\<close>

lemma fetchTx_first:
  "getTransaction env txSig 0 = Inr (Some r) \<Longrightarrow> fetchTx env txSig 0 = Inr (Some r)"
  by (simp add: fetchTx.simps[of env txSig 0])

text \<open>
  Claim C4. Three packed candidates, and a result log of three marker lines, each
  followed by one outcome line: \<open>l1\<close> contains \<^verbatim>\<open>Order does not exist\<close>, \<open>l2\<close>
  contains \<^verbatim>\<open>Amm cant fulfill order\<close> (and not the first pattern, which is tested
  first), \<open>l3\<close> is 60 characters long and contains neither. The first two candidates
  have the account reference and the order id below \<open>2^53\<close> that the log messages about
  them need, and the order-book lock is free for the removal. Then reconciliation
  returns normally, having asked the order book for exactly one removal, of the first
  candidate's order, recorded exactly one attempt, under the second candidate's
  signature, and counted one success (which it reports to the metrics sink, if any).
  An outcome line that contains neither pattern and is at most 50 characters long
  changes nothing of the bot.
\<close>

theorem processBulkFillTxLogs_three_outcomes:
  assumes accounts: "userAccount (dlobNodes st (node c1)) = Some a1"
      "userAccount (dlobNodes st (node c2)) = Some a2"
    and ids: "orderId (order (dlobNodes st (node c1))) < 2 ^ 53"
      "orderId (order (dlobNodes st (node c2))) < 2 ^ 53"
    and l1: "string_includes l1 ''Order does not exist''"
    and l2: "string_includes l2 ''Amm cant fulfill order''"
      "\<not> string_includes l2 ''Order does not exist''"
    and l3: "length l3 = 60" "\<not> string_includes l3 ''Order does not exist''"
      "\<not> string_includes l3 ''Amm cant fulfill order''"
    and fetch: "fetchTx env txSig 0 = Inr (Some \<lparr>logMessages = Some
        [Some ''Program log: Instruction: FillOrder'', Some l1,
         Some ''Program log: Instruction: FillOrder'', Some l2,
         Some ''Program log: Instruction: FillOrder'', Some l3]\<rparr>)"
    and lock: "\<not> busy 1"
  shows "fst (processLogs env clock busy [c1, c2, c3] txSig 0
               \<lparr>nextIsFillRecord = False, ixIdx = - 1, successCount = 0\<rparr> st
               [Some ''Program log: Instruction: FillOrder'', Some l1,
                Some ''Program log: Instruction: FillOrder'', Some l2,
                Some ''Program log: Instruction: FillOrder'', Some l3])
           = Inr \<lparr>nextIsFillRecord = False, ixIdx = 2, successCount = 1\<rparr>
         \<and> (\<exists>st'. processBulkFillTxLogs env clock busy st [c1, c2, c3] txSig = (Inr (), st')
              \<and> dlobRemoved st' = dlobRemoved st @ [(order (dlobNodes st (node c1)), a1)]
              \<and> throttledNodes st' =
                  (throttledNodes st)(getNodeToFillSignature (dlobNodes st) c2 \<mapsto> clock 3)
              \<and> filledOrderRecords st' =
                  filledOrderRecords st @ (if metrics st then [Some 1] else []))
         \<and> (\<forall>ls s l now b nodesFilled.
               nextIsFillRecord ls \<and> \<not> string_includes l ''Order does not exist''
               \<and> \<not> string_includes l ''Amm cant fulfill order'' \<and> length l \<le> 50 \<longrightarrow>
               processLog env now b nodesFilled txSig ls s (Some l)
                 = (Inr (ls\<lparr>nextIsFillRecord := False\<rparr>), s))"
  using assms
  by (simp add: processBulkFillTxLogs_def processLog_def assocOrder_def array_get_def
      BN_toNumber_def isLogFillOrder_def Let_def numeral_3_eq_3)


theorem processBulkFillTxLogs_three_outcomes_witness:
  "string_includes ''Program log: Order does not exist'' ''Order does not exist''
   \<and> string_includes ''Program log: Amm cant fulfill order'' ''Amm cant fulfill order''
   \<and> \<not> string_includes ''Program log: Amm cant fulfill order'' ''Order does not exist''
   \<and> length ''Program data: 0123456789abcdefghijklmnopqrstuvwxyzABCDEFGHIJ'' = 60
   \<and> (\<exists>st'. processBulkFillTxLogs ex_logs_env (\<lambda>i. 1000 + int i) (\<lambda>i. False) ex_filler
                [ex_cand 0, ex_cand 1, ex_cand 2] ''sig'' = (Inr (), st')
          \<and> dlobRemoved st' = [(\<lparr>orderId = 10\<rparr>, ''user0'')]
          \<and> throttledNodes st' = [''user1-900'' \<mapsto> 1003]
          \<and> filledOrderRecords st' = [Some 1])"
proof -
  let ?l1 = "''Program log: Order does not exist''"
  let ?l2 = "''Program log: Amm cant fulfill order''"
  let ?l3 = "''Program data: 0123456789abcdefghijklmnopqrstuvwxyzABCDEFGHIJ''"
  have nodes: "dlobNodes ex_filler = ex_nodes" by (simp add: ex_filler_def)
  have a0: "userAccount (dlobNodes ex_filler (node (ex_cand 0))) = Some ''user0''"
    and a1: "userAccount (dlobNodes ex_filler (node (ex_cand 1))) = Some ''user1''"
    and i0: "orderId (order (dlobNodes ex_filler (node (ex_cand 0)))) < 2 ^ 53"
    and i1: "orderId (order (dlobNodes ex_filler (node (ex_cand 1)))) < 2 ^ 53"
    and o0: "order (dlobNodes ex_filler (node (ex_cand 0))) = \<lparr>orderId = 10\<rparr>"
    unfolding nodes
    by (simp_all add: ex_nodes_def ex_cand_def toString_nat.simps digit_char_def)
  have sig: "getNodeToFillSignature (dlobNodes ex_filler) (ex_cand 1) = ''user1-900''"
    unfolding nodes
    by (simp add: getNodeToFillSignature_def ex_nodes_def ex_cand_def toString_nat.simps
        digit_char_def)
  have l1: "string_includes ?l1 ''Order does not exist''" by simp
  have l2: "string_includes ?l2 ''Amm cant fulfill order''"
    "\<not> string_includes ?l2 ''Order does not exist''"
    by simp_all
  have l3: "length ?l3 = 60" "\<not> string_includes ?l3 ''Order does not exist''"
    "\<not> string_includes ?l3 ''Amm cant fulfill order''"
    by simp_all
  have fetch: "fetchTx ex_logs_env ''sig'' 0 = Inr (Some \<lparr>logMessages = Some
        [Some ''Program log: Instruction: FillOrder'', Some ?l1,
         Some ''Program log: Instruction: FillOrder'', Some ?l2,
         Some ''Program log: Instruction: FillOrder'', Some ?l3]\<rparr>)"
    by (rule fetchTx_first) (simp add: ex_logs_env_def ex_logs_def)
  have lock: "\<not> (\<lambda>i::nat. False) 1" by simp
  have st: "throttledNodes ex_filler = Map.empty" "dlobRemoved ex_filler = []"
    "filledOrderRecords ex_filler = []" "metrics ex_filler"
    by (simp_all add: ex_filler_def)
  from processBulkFillTxLogs_three_outcomes[OF a0 a1 i0 i1 l1 l2 l3 fetch lock,
      of "\<lambda>i. 1000 + int i" "ex_cand 2"]
  obtain st' where
    run: "processBulkFillTxLogs ex_logs_env (\<lambda>i. 1000 + int i) (\<lambda>i. False) ex_filler
            [ex_cand 0, ex_cand 1, ex_cand 2] ''sig'' = (Inr (), st')"
    and removed: "dlobRemoved st' =
            dlobRemoved ex_filler @ [(order (dlobNodes ex_filler (node (ex_cand 0))), ''user0'')]"
    and throttled: "throttledNodes st' = (throttledNodes ex_filler)
            (getNodeToFillSignature (dlobNodes ex_filler) (ex_cand 1) \<mapsto> 1000 + int 3)"
    and counted: "filledOrderRecords st' =
            filledOrderRecords ex_filler @ (if metrics ex_filler then [Some 1] else [])"
    by blast
  have "dlobRemoved st' = [(\<lparr>orderId = 10\<rparr>, ''user0'')]"
    "throttledNodes st' = [''user1-900'' \<mapsto> 1003]" "filledOrderRecords st' = [Some 1]"
    using removed throttled counted unfolding sig o0 by (simp_all add: st)
  with run l1 l2 l3 show ?thesis by blast
qed

subsection \<open>The cycle entry point\<close>























end
